theory Spec2Isabelle
  imports Complex_Main "HOL-Library.Product_Lexorder" "HOL-Library.List_Lexorder"
    "HOL-Library.Char_ord"
begin

section \<open>Numbers of the scoring engine\<close>

text \<open>
  The Python code computes on floats. They are embedded as exact reals; a value that
  pandas reports as missing (\<open>pd.isna\<close>: NaN, None, or an absent key whose default
  is treated the same way) is \<open>None\<close> of a \<open>real option\<close>. Every place
  where the source tests \<open>pd.isna\<close>, \<open>pd.notna\<close> or \<open>pd.notnull\<close> is a
  case distinction on that option.
\<close>

text \<open>
  \<open>round(x, 1)\<close> of Python: the closest multiple of one tenth, a tie going to the
  even multiple.
\<close>

definition round_half_even :: "real \<Rightarrow> int" where
  "round_half_even y =
     (let f = \<lfloor>y\<rfloor>; d = y - of_int f
      in if d < 1 / 2 then f
         else if 1 / 2 < d then f + 1
         else if even f then f else f + 1)"

definition py_round1 :: "real \<Rightarrow> real" where
  "py_round1 x = of_int (round_half_even (x * 10)) / 10"

section \<open>Scoring curves\<close>

definition UNDERCODING_SEVERE :: real where
  "UNDERCODING_SEVERE = 15 / 100"

definition UNDERCODING_NATIONAL_AVG :: real where
  "UNDERCODING_NATIONAL_AVG = 45 / 100"

text \<open>
  \<open>score_undercoding_continuous(ratio)\<close>, the score component of the returned pair.
  The first test of the source is \<open>ratio <= 0 or pd.isna(ratio)\<close>.
\<close>

definition score_undercoding_continuous :: "real option \<Rightarrow> real" where
  "score_undercoding_continuous ratio =
     (case ratio of
        None \<Rightarrow> 10
      | Some r \<Rightarrow>
          if r \<le> 0 then 10
          else if r \<ge> UNDERCODING_NATIONAL_AVG then 0
          else if r \<le> UNDERCODING_SEVERE then 40
          else py_round1 (40 - ((r - UNDERCODING_SEVERE)
                                / (UNDERCODING_NATIONAL_AVG - UNDERCODING_SEVERE)) * 25))"

text \<open>
  \<open>score_psych_risk_continuous(ratio)\<close>, the score component, with the local
  constants of the source.
\<close>

definition SEVERE_LOW :: real where "SEVERE_LOW = 30 / 100"
definition SEVERE_HIGH :: real where "SEVERE_HIGH = 75 / 100"
definition SWEET_SPOT_LOW :: real where "SWEET_SPOT_LOW = 40 / 100"
definition SWEET_SPOT_HIGH :: real where "SWEET_SPOT_HIGH = 60 / 100"

definition score_psych_risk_continuous :: "real option \<Rightarrow> real" where
  "score_psych_risk_continuous ratio =
     (case ratio of
        None \<Rightarrow> 10
      | Some r \<Rightarrow>
          if r \<le> 0 then 10
          else if r \<le> SEVERE_LOW then 40
          else if r \<ge> SEVERE_HIGH then 40
          else if SWEET_SPOT_LOW \<le> r \<and> r \<le> SWEET_SPOT_HIGH then 10
          else if r < SWEET_SPOT_LOW then
            py_round1 (10 + ((SWEET_SPOT_LOW - r) / (SWEET_SPOT_LOW - SEVERE_LOW)) * 30)
          else
            py_round1 (10 + ((r - SWEET_SPOT_HIGH) / (SEVERE_HIGH - SWEET_SPOT_HIGH)) * 30))"

section \<open>Strings\<close>

text \<open>
  The string operations of Python that the engine uses, on ASCII: \<open>upper\<close>,
  \<open>lower\<close>, \<open>startswith\<close>, the substring test \<open>k in s\<close>, \<open>split\<close> on a
  separator character and \<open>strip\<close>.
\<close>

definition upper_char :: "char \<Rightarrow> char" where
  "upper_char c =
     (case map_of (zip ''abcdefghijklmnopqrstuvwxyz'' ''ABCDEFGHIJKLMNOPQRSTUVWXYZ'') c of
        None \<Rightarrow> c
      | Some u \<Rightarrow> u)"

definition lower_char :: "char \<Rightarrow> char" where
  "lower_char c =
     (case map_of (zip ''ABCDEFGHIJKLMNOPQRSTUVWXYZ'' ''abcdefghijklmnopqrstuvwxyz'') c of
        None \<Rightarrow> c
      | Some l \<Rightarrow> l)"

definition py_upper :: "string \<Rightarrow> string" where
  "py_upper s = map upper_char s"

definition py_lower :: "string \<Rightarrow> string" where
  "py_lower s = map lower_char s"

fun startswith :: "string \<Rightarrow> string \<Rightarrow> bool" where
  "startswith s [] = True"
| "startswith [] (p # ps) = False"
| "startswith (c # cs) (p # ps) = (c = p \<and> startswith cs ps)"

text \<open>\<open>str_contains s k\<close> is Python's \<open>k in s\<close>.\<close>

fun str_contains :: "string \<Rightarrow> string \<Rightarrow> bool" where
  "str_contains [] k = (k = [])"
| "str_contains (c # cs) k = (startswith (c # cs) k \<or> str_contains cs k)"

fun split_on :: "char \<Rightarrow> string \<Rightarrow> string list" where
  "split_on sep [] = [[]]"
| "split_on sep (c # cs) =
     (if c = sep then [] # split_on sep cs
      else (case split_on sep cs of
              [] \<Rightarrow> [[c]]
            | p # ps \<Rightarrow> (c # p) # ps))"

definition is_space :: "char \<Rightarrow> bool" where
  "is_space c = (c \<in> set [CHR '' '', CHR 0x09, CHR 0x0A, CHR 0x0B, CHR 0x0C, CHR 0x0D])"

definition strip :: "string \<Rightarrow> string" where
  "strip s = rev (dropWhile is_space (rev (dropWhile is_space s)))"

section \<open>The scoring input row\<close>

text \<open>
  One organisation row as \<open>calculate_row_score\<close> reads it. A numeric column is
  \<open>None\<close> when the key is absent or the cell is NaN; the source treats the two alike
  for every such column. \<open>segment_label\<close> is \<open>None\<close> when the key is absent,
  because the source reads it with two different defaults. \<open>npi_count\<close> is
  read as \<open>float(row.get('npi_count', 1))\<close> with no test for NaN, so the three
  cases of that cell are kept apart: absent (the source then takes 1), NaN, or a
  number. A value computed from it is a \<open>real option\<close> whose \<open>None\<close> is the NaN
  that float arithmetic hands on. A text column holds
  the string that \<open>str(row.get(key, ''))\<close> yields; \<open>taxonomy\<close> is \<open>None\<close>
  when the key is absent or the cell is NaN.
\<close>

datatype cell = Absent | NaN | Number real

record org_row =
  total_revenue :: "real option"
  hospital_total_revenue :: "real option"
  fqhc_revenue :: "real option"
  hha_revenue :: "real option"
  real_medicare_revenue :: "real option"
  services_count :: "real option"
  final_volume :: "real option"
  volume_source :: string
  undercoding_ratio :: "real option"
  psych_risk_ratio :: "real option"
  total_psych_codes :: "real option"
  total_eval_codes :: "real option"
  total_procedure_codes :: "real option"
  procedure_ratio :: "real option"
  net_margin :: "real option"
  avg_mips_score :: "real option"
  npi_count :: cell
  is_aco_participant :: string
  risk_compliance_flag :: string
  oig_leie_flag :: string
  is_hpsa :: string
  is_mua :: string
  segment_label :: "string option"
  org_name :: string
  taxonomy :: "string option"

section \<open>Procedure alignment\<close>

definition SPECIALTY_PROCEDURE_TARGETS :: "(string \<times> real) list" where
  "SPECIALTY_PROCEDURE_TARGETS =
     [(''213E'', 60 / 100), (''207X'', 50 / 100), (''207W'', 60 / 100),
      (''207N'', 50 / 100), (''204C'', 40 / 100), (''204D'', 40 / 100),
      (''208200'', 40 / 100), (''207V'', 50 / 100), (''207T'', 45 / 100)]"

definition PROCEDURE_DEFICIT_THRESHOLD :: real where
  "PROCEDURE_DEFICIT_THRESHOLD = 20 / 100"

text \<open>The inner loop of \<open>get_expected_procedure_ratio\<close>: the first prefix of the table
  that the code starts with.\<close>

fun first_prefix_match :: "(string \<times> real) list \<Rightarrow> string \<Rightarrow> real option" where
  "first_prefix_match [] code = None"
| "first_prefix_match ((taxonomy_prefix, expected_ratio) # rest) code =
     (if startswith code taxonomy_prefix then Some expected_ratio
      else first_prefix_match rest code)"

text \<open>The outer loop: the first code of the list that matches some prefix.\<close>

fun first_code_match :: "string list \<Rightarrow> real option" where
  "first_code_match [] = None"
| "first_code_match (code # codes) =
     (case first_prefix_match SPECIALTY_PROCEDURE_TARGETS code of
        Some expected_ratio \<Rightarrow> Some expected_ratio
      | None \<Rightarrow> first_code_match codes)"

definition get_expected_procedure_ratio :: "string option \<Rightarrow> real option" where
  "get_expected_procedure_ratio taxonomy_str =
     (case taxonomy_str of
        None \<Rightarrow> None
      | Some s \<Rightarrow>
          if s = [] then None
          else first_code_match (filter (\<lambda>c. c \<noteq> []) (map strip (split_on CHR '';'' s))))"

definition or_zero :: "real option \<Rightarrow> real" where
  "or_zero v = (case v of None \<Rightarrow> 0 | Some x \<Rightarrow> x)"

text \<open>
  \<open>score_procedure_alignment(row)\<close>, the score component. The counters of
  \<open>PROCEDURE_DATA_QUALITY_STATS\<close> that the source updates on the way are reporting
  only and are left out; the order of the tests is the source's.
\<close>

definition score_procedure_alignment :: "org_row \<Rightarrow> real" where
  "score_procedure_alignment row =
     (let segment = (case segment_label row of None \<Rightarrow> [] | Some s \<Rightarrow> s)
      in if segment \<notin> set [''Private Practice'', ''Specialty Group''] then 0
         else case get_expected_procedure_ratio (taxonomy row) of
           None \<Rightarrow> 0
         | Some expected_ratio \<Rightarrow>
             let procedure_ratio' = or_zero (procedure_ratio row);
                 total_claims = or_zero (total_procedure_codes row) + or_zero (total_eval_codes row)
             in if total_claims < 50 then 0
                else if procedure_ratio row = None then 0
                else let deficit = expected_ratio - procedure_ratio'
                     in if deficit \<ge> PROCEDURE_DEFICIT_THRESHOLD then
                          (if deficit \<ge> 40 / 100 then 10
                           else py_round1 (4 + ((deficit - PROCEDURE_DEFICIT_THRESHOLD) / (20 / 100)) * 6))
                        else 0)"

section \<open>Track selection\<close>

definition behavioral_keywords :: "string list" where
  "behavioral_keywords = [''BEHAVIORAL'', ''PSYCH'', ''MENTAL HEALTH'', ''COUNSELING'', ''THERAPY'']"

definition detect_track :: "org_row \<Rightarrow> string" where
  "detect_track row =
     (let segment = (case segment_label row of None \<Rightarrow> [] | Some s \<Rightarrow> s);
          org_name' = py_upper (org_name row)
      in if segment = ''Behavioral Health'' then ''BEHAVIORAL''
         else if list_ex (\<lambda>keyword. str_contains org_name' keyword) behavioral_keywords
           then ''BEHAVIORAL''
         else if segment \<in> set [''Home Health'', ''Hospital''] then ''POST_ACUTE''
         else ''AMBULATORY'')"

section \<open>Fit and strategy components\<close>

definition is_true :: "string \<Rightarrow> bool" where
  "is_true s = (py_lower s = ''true'')"

definition score_behavioral_vbc_readiness :: "org_row \<Rightarrow> real" where
  "score_behavioral_vbc_readiness row =
     (let s1 = (case avg_mips_score row of
                  None \<Rightarrow> 0
                | Some avg_mips \<Rightarrow> if avg_mips > 80 then 5 else if avg_mips \<ge> 60 then 3 else 0);
          s2 = (if is_true (is_aco_participant row) then s1 + 5 else s1);
          s3 = (if is_true (is_hpsa row) \<or> is_true (is_mua row) then s2 + 5 else s2)
      in min s3 15)"

text \<open>
  \<open>score_provider_count_continuous(npi_count)\<close>. On NaN both comparisons are false,
  the logarithm is NaN and so is the rounded result.
\<close>

definition score_provider_count_continuous :: "real option \<Rightarrow> real option" where
  "score_provider_count_continuous count =
     (case count of
        None \<Rightarrow> None
      | Some n \<Rightarrow>
          Some (if n \<le> 1 then 0
                else if n \<ge> 100 then 10
                else py_round1 ((ln n / ln 100) * 10)))"

definition score_revenue_continuous :: "real option \<Rightarrow> string \<Rightarrow> real" where
  "score_revenue_continuous revenue segment =
     (case revenue of
        None \<Rightarrow> 2
      | Some rv \<Rightarrow>
          if rv \<le> 0 then 2
          else let min_rev = (if segment = ''FQHC'' then 100000 else 500000);
                   max_rev = (if segment = ''FQHC'' then 5000000 else 15000000)
               in if rv \<ge> max_rev then 15
                  else if rv \<le> min_rev then 2
                  else py_round1 (min 15 (max 2
                         (2 + ((ln rv - ln min_rev) / (ln max_rev - ln min_rev)) * 13))))"

definition score_volume_continuous :: "real option \<Rightarrow> bool \<Rightarrow> real" where
  "score_volume_continuous volume is_verified =
     (case volume of
        None \<Rightarrow> 3
      | Some vol \<Rightarrow>
          if vol \<le> 0 then 3
          else let max_score = (if is_verified then 15 else 10)
               in if vol \<ge> 50000 then max_score
                  else if vol \<le> 1000 then 3
                  else py_round1 (min max_score (max 3
                         (3 + ((ln vol - ln 1000) / (ln 50000 - ln 1000)) * (max_score - 3)))))"

definition score_behavioral_volume_continuous :: "real option \<Rightarrow> bool \<Rightarrow> real" where
  "score_behavioral_volume_continuous volume is_verified =
     (case volume of
        None \<Rightarrow> 3
      | Some vol \<Rightarrow>
          if vol \<le> 0 then 3
          else let max_score = (if is_verified then 15 else 10)
               in if vol \<ge> 20000 then max_score
                  else if vol \<le> 500 then 3
                  else py_round1 (min max_score (max 3
                         (3 + ((ln vol - ln 500) / (ln 20000 - ln 500)) * (max_score - 3)))))"

section \<open>The row score\<close>

text \<open>
  \<open>calculate_row_score\<close> is embedded one local variable at a time, each a function
  of the row under the variable's name. The driver list, the reasoning strings and the
  pass-through and constant columns of the result are text for the reader and are not
  embedded.
\<close>

text \<open>The revenue fallback chain: each \<open>if pd.isna(real_revenue)\<close> moves on to the next
  column.\<close>

definition real_revenue :: "org_row \<Rightarrow> real option" where
  "real_revenue row =
     (case total_revenue row of Some v \<Rightarrow> Some v | None \<Rightarrow>
      case hospital_total_revenue row of Some v \<Rightarrow> Some v | None \<Rightarrow>
      case fqhc_revenue row of Some v \<Rightarrow> Some v | None \<Rightarrow>
      case hha_revenue row of Some v \<Rightarrow> Some v | None \<Rightarrow>
      real_medicare_revenue row)"

definition vol_metric :: "org_row \<Rightarrow> real" where
  "vol_metric row =
     (case services_count row of
        Some real_enc \<Rightarrow> if real_enc > 0 then real_enc else or_zero (final_volume row)
      | None \<Rightarrow> or_zero (final_volume row))"

definition is_verified_volume :: "org_row \<Rightarrow> bool" where
  "is_verified_volume row =
     (let volume_source' = py_upper (volume_source row)
      in str_contains volume_source' ''UDS'' \<or> str_contains volume_source' ''VERIFIED''
         \<or> str_contains volume_source' ''CLAIMS'' \<or> str_contains volume_source' ''HRSA'')"

definition undercoding :: "org_row \<Rightarrow> real" where
  "undercoding row = or_zero (undercoding_ratio row)"

definition psych_risk :: "org_row \<Rightarrow> real" where
  "psych_risk row = or_zero (psych_risk_ratio row)"

definition is_aco :: "org_row \<Rightarrow> bool" where
  "is_aco row = is_true (is_aco_participant row)"

definition is_risk :: "org_row \<Rightarrow> bool" where
  "is_risk row = (is_true (risk_compliance_flag row) \<or> is_true (oig_leie_flag row))"

definition npi_count' :: "org_row \<Rightarrow> real option" where
  "npi_count' row =
     (case npi_count row of Absent \<Rightarrow> Some 1 | NaN \<Rightarrow> None | Number n \<Rightarrow> Some n)"

text \<open>The segment after the revenue-based downgrade of hospitals.\<close>

definition segment :: "org_row \<Rightarrow> string" where
  "segment row =
     (let seg = (case segment_label row of None \<Rightarrow> ''Multi-specialty'' | Some s \<Rightarrow> s)
      in case real_revenue row of
           Some rv \<Rightarrow> if seg = ''Hospital'' \<and> rv < 10000000 then ''Ambulatory Center'' else seg
         | None \<Rightarrow> seg)"

definition track :: "org_row \<Rightarrow> string" where
  "track row = detect_track row"

subsection \<open>Pain\<close>

definition pain_behavioral :: "org_row \<Rightarrow> real" where
  "pain_behavioral row =
     (let pain0 = score_psych_risk_continuous (Some (psych_risk row))
      in case total_psych_codes row of
           None \<Rightarrow> pain0
         | Some total_psych \<Rightarrow>
             if total_psych > 500
             then (let addon_bonus = min 5 ((total_psych / 1000) * 5)
                   in min 40 (pain0 + addon_bonus))
             else pain0)"

definition pain_post_acute :: "org_row \<Rightarrow> real" where
  "pain_post_acute row =
     (case net_margin row of
        Some real_margin \<Rightarrow>
          if real_margin < 0 then 40
          else if real_margin < 5 / 100
            then py_round1 (25 + (5 / 100 - real_margin) / (5 / 100) * 15)
          else 15
      | None \<Rightarrow> 10)"

definition pain_undercoding :: "org_row \<Rightarrow> real" where
  "pain_undercoding row = score_undercoding_continuous (Some (undercoding row))"

text \<open>The therapy relevance gate of the ambulatory path.\<close>

definition eval_codes_available :: "org_row \<Rightarrow> bool" where
  "eval_codes_available row =
     (case total_eval_codes row of None \<Rightarrow> False | Some v \<Rightarrow> v > 0)"

definition psych_percentage :: "org_row \<Rightarrow> real" where
  "psych_percentage row =
     (if \<not> eval_codes_available row then 0
      else let total_ambulatory_claims = or_zero (total_psych_codes row) + or_zero (total_eval_codes row)
           in if total_ambulatory_claims > 0
              then or_zero (total_psych_codes row) / total_ambulatory_claims
              else 0)"

definition pain_therapy :: "org_row \<Rightarrow> real" where
  "pain_therapy row =
     (if psych_percentage row > 20 / 100 \<and> or_zero (total_psych_codes row) \<ge> 100
      then (if psych_risk row > 0 then score_psych_risk_continuous (Some (psych_risk row)) else 0)
      else 0)"

definition pain_procedure_alignment :: "org_row \<Rightarrow> real" where
  "pain_procedure_alignment row = score_procedure_alignment row"

definition pain_ambulatory :: "org_row \<Rightarrow> real" where
  "pain_ambulatory row =
     (let pain0 = (if pain_therapy row > pain_undercoding row then pain_therapy row
                   else pain_undercoding row)
      in if pain_procedure_alignment row > 0
         then min 40 (pain0 + pain_procedure_alignment row)
         else pain0)"

definition pain :: "org_row \<Rightarrow> real" where
  "pain row =
     (if track row = ''BEHAVIORAL'' then pain_behavioral row
      else if track row = ''POST_ACUTE'' then pain_post_acute row
      else pain_ambulatory row)"

definition confidence :: "org_row \<Rightarrow> real" where
  "confidence row =
     (if track row = ''BEHAVIORAL'' then (if pain row \<ge> 20 then 40 else 0)
      else if track row = ''POST_ACUTE'' then (if net_margin row \<noteq> None then 30 else 0)
      else (if pain row \<ge> 30 then 50 else 0))"

subsection \<open>Fit\<close>

definition segment_alignment_scores :: "(string \<times> real) list" where
  "segment_alignment_scores =
     [(''FQHC'', 15), (''Urgent Care'', 15), (''Behavioral Health'', 10),
      (''Private Practice'', 10), (''Hospital'', 8), (''Home Health'', 5),
      (''Ambulatory Clinic'', 5), (''Multi-specialty'', 5)]"

definition s2_align :: "org_row \<Rightarrow> real" where
  "s2_align row =
     (if track row = ''BEHAVIORAL'' then 10
      else (case map_of segment_alignment_scores (segment row) of None \<Rightarrow> 5 | Some v \<Rightarrow> v))"

definition s2_complex :: "org_row \<Rightarrow> real option" where
  "s2_complex row = score_provider_count_continuous (npi_count' row)"

definition s2_tech_risk :: "org_row \<Rightarrow> real" where
  "s2_tech_risk row = (if is_aco row then 3 else 0) + (if is_risk row then 2 else 0)"

definition s2_mips :: "org_row \<Rightarrow> real" where
  "s2_mips row =
     (case avg_mips_score row of
        None \<Rightarrow> 0
      | Some m \<Rightarrow> if m > 80 then 5 else if m < 50 then 5 else 0)"

definition s2_hpsa_mua :: "org_row \<Rightarrow> real" where
  "s2_hpsa_mua row = (if is_true (is_hpsa row) \<or> is_true (is_mua row) then 5 else 0)"

text \<open>
  The fit sub-score. With a NaN provider score, \<open>min(s2_complex, 5)\<close> is NaN (Python
  returns its first argument unless a later one compares smaller), every sum with it
  is NaN, and \<open>round\<close> of NaN is NaN.
\<close>

definition fit :: "org_row \<Rightarrow> real option" where
  "fit row =
     (case s2_complex row of
        None \<Rightarrow> None
      | Some c \<Rightarrow>
          if track row = ''BEHAVIORAL''
          then Some (py_round1 (s2_align row + score_behavioral_vbc_readiness row + min c 5))
          else Some (py_round1 (s2_align row + c + s2_tech_risk row + s2_mips row
                                + s2_hpsa_mua row)))"

subsection \<open>Strategy\<close>

definition est_rev :: "org_row \<Rightarrow> real" where
  "est_rev row =
     (case real_revenue row of
        Some rv \<Rightarrow> rv
      | None \<Rightarrow>
          if track row = ''BEHAVIORAL'' then vol_metric row * 150
          else if segment row = ''FQHC'' then vol_metric row * 300
          else vol_metric row * 100)"

definition s3_revenue :: "org_row \<Rightarrow> real" where
  "s3_revenue row =
     (if track row = ''BEHAVIORAL''
      then (if est_rev row \<le> 0 then 2
            else if est_rev row \<ge> 15000000 then 15
            else if est_rev row \<le> 1000000 then 2
            else py_round1 (min 15 (max 2
                   (2 + ((ln (est_rev row) - ln 1000000) / (ln 15000000 - ln 1000000)) * 13))))
      else score_revenue_continuous (Some (est_rev row)) (segment row))"

definition s3_volume :: "org_row \<Rightarrow> real" where
  "s3_volume row =
     (if track row = ''BEHAVIORAL''
      then score_behavioral_volume_continuous (Some (vol_metric row)) (is_verified_volume row)
      else score_volume_continuous (Some (vol_metric row)) (is_verified_volume row))"

definition strat :: "org_row \<Rightarrow> real" where
  "strat row = py_round1 (s3_revenue row + s3_volume row)"

subsection \<open>Total, tier and label\<close>

text \<open>The total is NaN when the fit is. Every comparison with NaN is false, which
  leaves the tier at its initial value.\<close>

definition total :: "org_row \<Rightarrow> real option" where
  "total row =
     (case fit row of
        None \<Rightarrow> None
      | Some f \<Rightarrow> Some (py_round1 (pain row + f + strat row)))"

definition tier :: "org_row \<Rightarrow> string" where
  "tier row =
     (case total row of
        None \<Rightarrow> ''Tier 4''
      | Some t \<Rightarrow>
          if t \<ge> 70 then ''Tier 1''
          else if t \<ge> 50 then ''Tier 2''
          else if t \<ge> 30 then ''Tier 3''
          else ''Tier 4'')"

text \<open>The label cascade of the behavioral track.\<close>

definition pain_label_behavioral :: "org_row \<Rightarrow> string" where
  "pain_label_behavioral row =
     (let pain_therapy_bh = score_psych_risk_continuous (Some (psych_risk row));
          pain_undercoding_bh = score_undercoding_continuous (Some (undercoding row));
          is_winning_bh = (undercoding row \<ge> UNDERCODING_NATIONAL_AVG \<and> pain_therapy_bh = 0)
      in if is_winning_bh then ''Low Pain - Strong Documentation''
         else if psych_percentage row > 20 / 100 \<and> or_zero (total_psych_codes row) \<ge> 100
                 \<and> psych_risk row > 0 \<and> pain_therapy_bh > pain_undercoding_bh
           then (if psych_risk row \<le> 30 / 100 then ''Therapy Undercoding Pain''
                 else if psych_risk row \<ge> 75 / 100 then ''Audit Risk Pain''
                 else ''Therapy Coding Risk'')
         else ''Undercoding Pain'')"

text \<open>The label cascade of the ambulatory track.\<close>

definition pain_label_ambulatory :: "org_row \<Rightarrow> string" where
  "pain_label_ambulatory row =
     (let pain_therapy_check = score_psych_risk_continuous (Some (psych_risk row));
          pain_undercoding_check = score_undercoding_continuous (Some (undercoding row));
          is_winning = (undercoding row \<ge> UNDERCODING_NATIONAL_AVG \<and> pain_therapy_check = 0
                        \<and> pain_procedure_alignment row = 0)
      in if is_winning then ''Low Pain - Strong Documentation''
         else if pain_procedure_alignment row \<ge> 3
                 \<and> pain_procedure_alignment row \<ge> pain_therapy_check
                 \<and> pain_procedure_alignment row \<ge> pain_undercoding_check
           then ''Procedure Alignment Pain''
         else if psych_percentage row > 20 / 100 \<and> or_zero (total_psych_codes row) \<ge> 100
                 \<and> psych_risk row > 0 \<and> pain_therapy_check > pain_undercoding_check
           then (if psych_risk row \<le> 30 / 100 then ''Therapy Undercoding Pain''
                 else if psych_risk row \<ge> 75 / 100 then ''Therapy Audit Risk''
                 else ''Therapy Coding Risk'')
         else ''Undercoding Pain'')"

definition pain_label_of :: "org_row \<Rightarrow> string" where
  "pain_label_of row =
     (if track row = ''BEHAVIORAL'' then pain_label_behavioral row
      else if track row = ''POST_ACUTE'' then ''Margin Pressure''
      else pain_label_ambulatory row)"

record score_result =
  icp_score :: real
  icp_tier :: string
  result_segment_label :: string
  scoring_track :: string
  pain_label :: string
  data_confidence :: real
  score_pain_total :: real
  score_fit_total :: "real option"
  score_strat_total :: real

text \<open>
  The result. \<open>min(100, total)\<close> is 100 when the total is NaN, since Python's
  \<open>min\<close> keeps its first argument unless a later one compares smaller.
\<close>

definition calculate_row_score :: "org_row \<Rightarrow> score_result" where
  "calculate_row_score row =
     \<lparr> icp_score = (case total row of None \<Rightarrow> 100 | Some t \<Rightarrow> min 100 t),
       icp_tier = tier row,
       result_segment_label = segment row,
       scoring_track = track row,
       pain_label = pain_label_of row,
       data_confidence = min 100 (confidence row),
       score_pain_total = py_round1 (pain row),
       score_fit_total = map_option py_round1 (fit row),
       score_strat_total = py_round1 (strat row) \<rparr>"

section \<open>The therapy relevance gate as the specification words it\<close>

text \<open>
  The gate of the specification, a function of the therapy share and the absolute
  number of psych codes only. It is compared below with what \<open>pain_therapy\<close>, the
  embedding of the source, computes.
\<close>

definition spec_therapy_gate :: "real \<Rightarrow> real \<Rightarrow> bool" where
  "spec_therapy_gate psych_share psych_codes = (psych_share > 20 / 100 \<and> psych_codes \<ge> 100)"

section \<open>Rows of the test scenarios\<close>

text \<open>The fixture \<open>base_clinic_data\<close> of the unit tests; the keys it does not set are
  absent.\<close>

definition base_clinic_data :: org_row where
  "base_clinic_data =
     \<lparr> total_revenue = Some 5000000, hospital_total_revenue = None, fqhc_revenue = None,
       hha_revenue = None, real_medicare_revenue = None, services_count = Some 10000,
       final_volume = Some 10000, volume_source = ''CLAIMS'',
       undercoding_ratio = Some (6 / 10), psych_risk_ratio = Some (2 / 10),
       total_psych_codes = Some 0, total_eval_codes = None, total_procedure_codes = None,
       procedure_ratio = None, net_margin = None, avg_mips_score = Some 75,
       npi_count = Number 10, is_aco_participant = ''false'', risk_compliance_flag = ''false'',
       oig_leie_flag = ''false'', is_hpsa = ''false'', is_mua = ''false'',
       segment_label = Some ''Private Practice'', org_name = ''Test Clinic'',
       taxonomy = None \<rparr>"

text \<open>The row of \<open>test_therapy_gate_closes_for_irrelevant_clinic\<close>.\<close>

definition cardiology_clinic :: org_row where
  "cardiology_clinic =
     base_clinic_data \<lparr> org_name := ''Cardiology Associates'', total_psych_codes := Some 10 \<rparr>"

text \<open>The rows of the two hospital tests.\<close>

definition low_revenue_hospital :: org_row where
  "low_revenue_hospital = base_clinic_data \<lparr> segment_label := Some ''Hospital'' \<rparr>"

definition high_revenue_hospital :: org_row where
  "high_revenue_hospital =
     base_clinic_data \<lparr> segment_label := Some ''Hospital'', total_revenue := Some 25000000 \<rparr>"

text \<open>A hospital with no revenue column filled.\<close>

definition no_revenue_hospital :: org_row where
  "no_revenue_hospital =
     base_clinic_data \<lparr> segment_label := Some ''Hospital'', total_revenue := None \<rparr>"

text \<open>An integrated practice: 300 psych codes against 900 evaluation codes.\<close>

definition integrated_practice :: org_row where
  "integrated_practice =
     base_clinic_data \<lparr> total_psych_codes := Some 300, total_eval_codes := Some 900 \<rparr>"

text \<open>A practice with psych volume but no evaluation-code volume.\<close>

definition psych_only_practice :: org_row where
  "psych_only_practice = base_clinic_data \<lparr> total_psych_codes := Some 302 \<rparr>"

text \<open>
  A behavioral clinic with 994 psych codes, a balanced psych-risk ratio, 100 providers,
  a MIPS score of 85, ACO participation, 20 million revenue and 25000 verified
  encounters.
\<close>

definition behavioral_clinic_994 :: org_row where
  "behavioral_clinic_994 =
     base_clinic_data \<lparr> segment_label := Some ''Behavioral Health'',
       org_name := ''Mindful Counseling Center'', psych_risk_ratio := Some (5 / 10),
       total_psych_codes := Some 994, npi_count := Number 100, avg_mips_score := Some 85,
       is_aco_participant := ''true'', total_revenue := Some 20000000,
       services_count := Some 25000 \<rparr>"

text \<open>The same clinic with a NaN in the provider-count cell.\<close>

definition nan_provider_clinic :: org_row where
  "nan_provider_clinic = behavioral_clinic_994 \<lparr> npi_count := NaN \<rparr>"

section \<open>The code aggregator\<close>

text \<open>
  The sums of the aggregator depend on the order in which the doubles are added, and
  that order depends on the chunks. Its arithmetic is therefore embedded with the
  rounding of IEEE 754 double precision: the result of an operation is the real result
  rounded to the nearest number with 53 significant bits, a tie going to the even
  significand. Overflow to infinity and subnormal numbers are not represented; service
  counts are far from both.
\<close>

definition fl :: "real \<Rightarrow> real" where
  "fl x =
     (if x = 0 then 0
      else let u = 2 powr (of_int \<lfloor>log 2 \<bar>x\<bar>\<rfloor> - 52)
           in of_int (round_half_even (x / u)) * u)"

definition fadd :: "real \<Rightarrow> real \<Rightarrow> real" where
  "fadd x y = fl (x + y)"

definition fdiv :: "real \<Rightarrow> real \<Rightarrow> real" where
  "fdiv x y = fl (x / y)"

text \<open>The sum of a column of doubles, added one after the other from 0.\<close>

definition fsum :: "real list \<Rightarrow> real" where
  "fsum vs = foldl fadd 0 vs"

text \<open>
  One row of the utilization file with the three columns that are read. A missing
  \<open>Tot_Srvcs\<close> cell is \<open>None\<close>; pandas leaves it out of every sum, which is the
  same as adding 0.
\<close>

record service_record =
  Rndrng_NPI :: int
  HCPCS_Cd :: string
  Tot_Srvcs :: "real option"

definition LEVEL_3_CODES :: "string list" where
  "LEVEL_3_CODES = [''99203'', ''99213'']"

definition LEVEL_4_5_CODES :: "string list" where
  "LEVEL_4_5_CODES = [''99204'', ''99205'', ''99214'', ''99215'']"

definition ALL_TARGET_CODES :: "string set" where
  "ALL_TARGET_CODES = set (LEVEL_3_CODES @ LEVEL_4_5_CODES)"

subsection \<open>Procedure codes\<close>

text \<open>
  \<open>int(s)\<close> of Python on ASCII text: surrounding whitespace is dropped, one sign may
  lead, and single underscores may stand between digits. \<open>None\<close> is the
  \<open>ValueError\<close> that \<open>is_procedure_code\<close> catches.
\<close>

definition digit_val :: "char \<Rightarrow> nat option" where
  "digit_val c = map_of (zip ''0123456789'' [0, 1, 2, 3, 4, 5, 6, 7, 8, 9]) c"

fun parse_digits :: "string \<Rightarrow> nat \<Rightarrow> nat option" where
  "parse_digits [] acc = Some acc"
| "parse_digits (c # cs) acc =
     (if c = CHR ''_'' then
        (case cs of
           [] \<Rightarrow> None
         | d # ds \<Rightarrow> (case digit_val d of
                        None \<Rightarrow> None
                      | Some v \<Rightarrow> parse_digits ds (acc * 10 + v)))
      else (case digit_val c of
              None \<Rightarrow> None
            | Some v \<Rightarrow> parse_digits cs (acc * 10 + v)))"

definition py_int_digits :: "string \<Rightarrow> nat option" where
  "py_int_digits s =
     (case s of
        [] \<Rightarrow> None
      | c # cs \<Rightarrow> (case digit_val c of None \<Rightarrow> None | Some v \<Rightarrow> parse_digits cs v))"

definition py_int :: "string \<Rightarrow> int option" where
  "py_int s =
     (case strip s of
        [] \<Rightarrow> None
      | c # cs \<Rightarrow>
          if c = CHR ''-'' then map_option (\<lambda>n. - int n) (py_int_digits cs)
          else if c = CHR ''+'' then map_option int (py_int_digits cs)
          else map_option int (py_int_digits (c # cs)))"

definition is_procedure_code :: "string \<Rightarrow> bool" where
  "is_procedure_code code =
     (if code = [] \<or> length code < 4 then False
      else (case py_int (take 5 code) of
              None \<Rightarrow> False
            | Some code_num \<Rightarrow> 10000 \<le> code_num \<and> code_num \<le> 69999))"

subsection \<open>Data frame operations\<close>

text \<open>
  \<open>df.groupby(keys)[col].sum().reset_index()\<close>: one row for each key that occurs,
  the keys in ascending order, with the sum of the values of that key, added as
  doubles in the order of the rows.
\<close>

definition sum_for :: "'k \<Rightarrow> ('k \<times> real) list \<Rightarrow> real" where
  "sum_for k rows = fsum (map snd (filter (\<lambda>r. fst r = k) rows))"

definition groupby_sum :: "('k::linorder \<times> real) list \<Rightarrow> ('k \<times> real) list" where
  "groupby_sum rows = map (\<lambda>k. (k, sum_for k rows)) (sort (remdups (map fst rows)))"

text \<open>
  \<open>rows.merge(bridge, left_on='Rndrng_NPI', right_on='indiv_npi', how='inner')\<close>:
  every row once for each bridge link of its provider, with the organisation of the
  link.
\<close>

definition merge_bridge :: "service_record list \<Rightarrow> (int \<times> int) list \<Rightarrow> (int \<times> service_record) list" where
  "merge_bridge rows bridge =
     concat (map (\<lambda>r. map (\<lambda>link. (snd link, r))
                          (filter (\<lambda>link. fst link = Rndrng_NPI r) bridge)) rows)"

text \<open>The provider column that the rows are grouped by: the organisation when there is
  a bridge, the rendering provider itself when there is none.\<close>

definition bridged :: "(int \<times> int) list option \<Rightarrow> service_record list \<Rightarrow> (int \<times> service_record) list" where
  "bridged bridge rows =
     (case bridge of
        Some b \<Rightarrow> merge_bridge rows b
      | None \<Rightarrow> map (\<lambda>r. (Rndrng_NPI r, r)) rows)"

definition eval_agg :: "(int \<times> int) list option \<Rightarrow> service_record list \<Rightarrow> ((int \<times> string) \<times> real) list" where
  "eval_agg bridge filtered =
     groupby_sum (map (\<lambda>(n, r). ((n, HCPCS_Cd r), or_zero (Tot_Srvcs r))) (bridged bridge filtered))"

definition proc_agg :: "(int \<times> int) list option \<Rightarrow> service_record list \<Rightarrow> (int \<times> real) list" where
  "proc_agg bridge procedure_filtered =
     groupby_sum (map (\<lambda>(n, r). (n, or_zero (Tot_Srvcs r))) (bridged bridge procedure_filtered))"

subsection \<open>The chunk loop\<close>

text \<open>
  The body of the \<open>for chunk in pd.read_csv(..., chunksize=chunk_size)\<close> loop,
  threading the two lists \<open>org_chunks\<close> and \<open>procedure_chunks\<close> that it appends to.
\<close>

fun process_chunks ::
  "(int \<times> int) list option \<Rightarrow> service_record list list
   \<Rightarrow> ((int \<times> string) \<times> real) list list \<times> (int \<times> real) list list
   \<Rightarrow> ((int \<times> string) \<times> real) list list \<times> (int \<times> real) list list" where
  "process_chunks bridge [] (org_chunks, procedure_chunks) = (org_chunks, procedure_chunks)"
| "process_chunks bridge (chunk # rest) (org_chunks, procedure_chunks) =
     (let filtered = filter (\<lambda>r. HCPCS_Cd r \<in> ALL_TARGET_CODES) chunk;
          procedure_filtered = filter (\<lambda>r. is_procedure_code (HCPCS_Cd r)) chunk;
          org_chunks' = (if filtered \<noteq> [] then org_chunks @ [eval_agg bridge filtered]
                         else org_chunks);
          procedure_chunks' = (if procedure_filtered \<noteq> []
                               then procedure_chunks @ [proc_agg bridge procedure_filtered]
                               else procedure_chunks)
      in process_chunks bridge rest (org_chunks', procedure_chunks'))"

subsection \<open>Finalization\<close>

text \<open>
  One row of the result. The columns carry the prefix \<open>agg_\<close> to keep them apart
  from the columns of the scoring input with the same names. \<open>agg_procedure_ratio\<close>
  is \<open>None\<close> where pandas yields an infinite value (a non-zero procedure volume
  divided by zero); the \<open>0 / 0\<close> that \<open>fillna(0)\<close> replaces is \<open>Some 0\<close>.
\<close>

record org_metrics =
  agg_npi :: int
  agg_undercoding_ratio :: real
  agg_total_eval_codes :: real
  agg_count_level_3 :: real
  agg_count_level_4_5 :: real
  agg_total_procedure_codes :: real
  agg_procedure_ratio :: "real option"

text \<open>A cell of the pivot table: the sum of the organisation and code, 0 where
  \<open>fillna(0)\<close> or the added zero column supplies it.\<close>

definition pivot_cell :: "((int \<times> string) \<times> real) list \<Rightarrow> int \<Rightarrow> string \<Rightarrow> real" where
  "pivot_cell final_agg n code = (case map_of final_agg (n, code) of None \<Rightarrow> 0 | Some v \<Rightarrow> v)"

definition pivot_index :: "((int \<times> string) \<times> real) list \<Rightarrow> int list" where
  "pivot_index final_agg = sort (remdups (map (\<lambda>r. fst (fst r)) final_agg))"

definition count_level_3 :: "((int \<times> string) \<times> real) list \<Rightarrow> int \<Rightarrow> real" where
  "count_level_3 final_agg n = fsum (map (pivot_cell final_agg n) LEVEL_3_CODES)"

definition count_level_4_5 :: "((int \<times> string) \<times> real) list \<Rightarrow> int \<Rightarrow> real" where
  "count_level_4_5 final_agg n = fsum (map (pivot_cell final_agg n) LEVEL_4_5_CODES)"

definition total_eval_of :: "((int \<times> string) \<times> real) list \<Rightarrow> int \<Rightarrow> real" where
  "total_eval_of final_agg n = fadd (count_level_3 final_agg n) (count_level_4_5 final_agg n)"

definition metrics_row ::
  "((int \<times> string) \<times> real) list \<Rightarrow> (int \<times> real) list option \<Rightarrow> int \<Rightarrow> org_metrics" where
  "metrics_row final_agg proc_final n =
     (let c3 = count_level_3 final_agg n;
          c45 = count_level_4_5 final_agg n;
          total_eval = total_eval_of final_agg n;
          total_proc = (case proc_final of
                          None \<Rightarrow> 0
                        | Some pf \<Rightarrow> (case map_of pf n of None \<Rightarrow> 0 | Some v \<Rightarrow> v));
          ratio = (case proc_final of
                     None \<Rightarrow> Some 0
                   | Some pf \<Rightarrow>
                       if fadd total_proc total_eval = 0
                       then (if total_proc = 0 then Some 0 else None)
                       else Some (fdiv total_proc (fadd total_proc total_eval)))
      in \<lparr> agg_npi = n,
           agg_undercoding_ratio = fdiv c45 total_eval,
           agg_total_eval_codes = total_eval,
           agg_count_level_3 = c3,
           agg_count_level_4_5 = c45,
           agg_total_procedure_codes = total_proc,
           agg_procedure_ratio = ratio \<rparr>)"

definition finalize ::
  "((int \<times> string) \<times> real) list list \<Rightarrow> (int \<times> real) list list \<Rightarrow> org_metrics list" where
  "finalize org_chunks procedure_chunks =
     (let final_agg = groupby_sum (concat org_chunks);
          kept = filter (\<lambda>n. total_eval_of final_agg n \<ge> 10) (pivot_index final_agg);
          proc_final = (if procedure_chunks \<noteq> [] then Some (groupby_sum (concat procedure_chunks))
                        else None)
      in map (metrics_row final_agg proc_final) kept)"

text \<open>
  The loop and the finalization on the chunks that the reader hands over. \<open>None\<close>
  is the \<open>return None\<close> of the source when no chunk held a target code.
\<close>

definition process_chunked ::
  "(int \<times> int) list option \<Rightarrow> service_record list list \<Rightarrow> org_metrics list option" where
  "process_chunked bridge chunks =
     (case process_chunks bridge chunks ([], []) of
        (org_chunks, procedure_chunks) \<Rightarrow>
          if org_chunks = [] then None else Some (finalize org_chunks procedure_chunks))"

text \<open>
  \<open>pd.read_csv(..., chunksize=n)\<close>: consecutive pieces of \<open>n\<close> rows, the last one
  possibly shorter; a chunk size below 1 is rejected with a \<open>ValueError\<close>.
\<close>

datatype agg_error = ValueError

function chunks_of :: "nat \<Rightarrow> 'a list \<Rightarrow> 'a list list" where
  "chunks_of n xs = (if n = 0 \<or> xs = [] then [] else take n xs # chunks_of n (drop n xs))"
  by pat_completeness auto
termination
  by (relation "measure (\<lambda>(n, xs). length xs)") auto

declare chunks_of.simps [simp del]

definition read_csv_chunks :: "nat \<Rightarrow> 'a list \<Rightarrow> agg_error + 'a list list" where
  "read_csv_chunks chunk_size rows =
     (if chunk_size < 1 then Inl ValueError else Inr (chunks_of chunk_size rows))"

text \<open>\<open>process_utilization_with_bridge\<close> with the file contents and the chunk size as
  arguments; the source fixes the chunk size at 100000.\<close>

definition process_utilization_with_bridge ::
  "nat \<Rightarrow> (int \<times> int) list option \<Rightarrow> service_record list \<Rightarrow> agg_error + org_metrics list option" where
  "process_utilization_with_bridge chunk_size bridge rows =
     (case read_csv_chunks chunk_size rows of
        Inl e \<Rightarrow> Inl e
      | Inr chunks \<Rightarrow> Inr (process_chunked bridge chunks))"

subsection \<open>Conditions on the input\<close>

text \<open>Every service count that is present is non-negative.\<close>

definition nonneg_services :: "service_record list \<Rightarrow> bool" where
  "nonneg_services rows = (\<forall>r\<in>set rows. \<forall>v. Tot_Srvcs r = Some v \<longrightarrow> 0 \<le> v)"

text \<open>A non-negative whole number.\<close>

definition whole :: "real \<Rightarrow> bool" where
  "whole v = (0 \<le> v \<and> of_int \<lfloor>v\<rfloor> = v)"

text \<open>
  Every service count that is present is a non-negative whole number, and the counts
  of all rows, each row taken once for every organisation it is bridged to, add up to
  at most 2 to the power 53: then no addition of the aggregator rounds.
\<close>

definition whole_services :: "(int \<times> int) list option \<Rightarrow> service_record list \<Rightarrow> bool" where
  "whole_services bridge rows =
     ((\<forall>r\<in>set rows. \<forall>v. Tot_Srvcs r = Some v \<longrightarrow> whole v)
      \<and> sum_list (map (\<lambda>p. or_zero (Tot_Srvcs (snd p))) (bridged bridge rows)) \<le> 2 ^ 53)"

subsection \<open>Auxiliary notions for the proofs\<close>

text \<open>The exact sum of the values filed under one key, and the group-by with exact
  sums.\<close>

definition exact_sum_for :: "'k \<Rightarrow> ('k \<times> real) list \<Rightarrow> real" where
  "exact_sum_for k rows = sum_list (map snd (filter (\<lambda>r. fst r = k) rows))"

definition groupby_exact :: "('k::linorder \<times> real) list \<Rightarrow> ('k \<times> real) list" where
  "groupby_exact rows = map (\<lambda>k. (k, exact_sum_for k rows)) (sort (remdups (map fst rows)))"

text \<open>The service counts of a list of bridged rows, added up exactly.\<close>

definition weight :: "(int \<times> service_record) list \<Rightarrow> real" where
  "weight ps = sum_list (map (\<lambda>p. or_zero (Tot_Srvcs (snd p))) ps)"

text \<open>A small utilization file and bridge for the examples.\<close>

definition example_rows :: "service_record list" where
  "example_rows =
     [\<lparr> Rndrng_NPI = 1, HCPCS_Cd = ''99213'', Tot_Srvcs = Some 6 \<rparr>,
      \<lparr> Rndrng_NPI = 2, HCPCS_Cd = ''99214'', Tot_Srvcs = Some 4 \<rparr>,
      \<lparr> Rndrng_NPI = 1, HCPCS_Cd = ''11042'', Tot_Srvcs = Some 5 \<rparr>,
      \<lparr> Rndrng_NPI = 3, HCPCS_Cd = ''99213'', Tot_Srvcs = Some 3 \<rparr>,
      \<lparr> Rndrng_NPI = 2, HCPCS_Cd = ''99215'', Tot_Srvcs = Some 2 \<rparr>]"

definition example_bridge :: "(int \<times> int) list" where
  "example_bridge = [(1, 10), (2, 10), (3, 30)]"



text \<open>A provider with a negative count of 99213 and a positive count of 99215.\<close>

definition negative_rows :: "service_record list" where
  "negative_rows =
     [\<lparr> Rndrng_NPI = 1, HCPCS_Cd = ''99213'', Tot_Srvcs = Some (- 5) \<rparr>,
      \<lparr> Rndrng_NPI = 1, HCPCS_Cd = ''99215'', Tot_Srvcs = Some 20 \<rparr>]"

section \<open>Rounding to one decimal: bounds and monotonicity\<close>

lemma round_half_even_lower: "of_int k \<le> y \<Longrightarrow> k \<le> round_half_even y"
proof -
  assume "of_int k \<le> y"
  then have "k \<le> \<lfloor>y\<rfloor>" by (simp add: le_floor_iff)
  then show ?thesis by (auto simp: round_half_even_def Let_def)
qed

lemma round_half_even_upper: "y \<le> of_int k \<Longrightarrow> round_half_even y \<le> k"
proof (cases "y = of_int k")
  case True
  then show ?thesis by (simp add: round_half_even_def Let_def)
next
  case False
  assume "y \<le> of_int k"
  with False have "y < of_int k" by simp
  then have "\<lfloor>y\<rfloor> < k" by (simp add: floor_less_iff)
  then show ?thesis by (auto simp: round_half_even_def Let_def)
qed

lemma round_half_even_mono:
  assumes "x \<le> y"
  shows "round_half_even x \<le> round_half_even y"
proof (cases "\<lfloor>x\<rfloor> = \<lfloor>y\<rfloor>")
  case True
  with assms have "x - of_int \<lfloor>x\<rfloor> \<le> y - of_int \<lfloor>y\<rfloor>" by simp
  with True show ?thesis by (auto simp: round_half_even_def Let_def)
next
  case False
  with assms have lt: "\<lfloor>x\<rfloor> < \<lfloor>y\<rfloor>"
    using floor_mono [of x y] by simp
  have "round_half_even x \<le> \<lfloor>x\<rfloor> + 1" by (auto simp: round_half_even_def Let_def)
  moreover have "\<lfloor>y\<rfloor> \<le> round_half_even y" by (auto simp: round_half_even_def Let_def)
  ultimately show ?thesis using lt by linarith
qed

lemma py_round1_mono: "x \<le> y \<Longrightarrow> py_round1 x \<le> py_round1 y"
  using round_half_even_mono [of "x * 10" "y * 10"]
  by (simp add: py_round1_def divide_right_mono)

lemma py_round1_lower:
  assumes "of_int k / 10 \<le> x"
  shows "of_int k / 10 \<le> py_round1 x"
proof -
  from assms have "of_int k \<le> x * 10" by simp
  then have "k \<le> round_half_even (x * 10)" by (rule round_half_even_lower)
  then have "(of_int k :: real) \<le> of_int (round_half_even (x * 10))" by simp
  then show ?thesis by (simp add: py_round1_def divide_right_mono)
qed

lemma py_round1_upper:
  assumes "x \<le> of_int k / 10"
  shows "py_round1 x \<le> of_int k / 10"
proof -
  from assms have "x * 10 \<le> of_int k" by simp
  then have "round_half_even (x * 10) \<le> k" by (rule round_half_even_upper)
  then have "(of_int (round_half_even (x * 10)) :: real) \<le> of_int k" by simp
  then show ?thesis by (simp add: py_round1_def divide_right_mono)
qed

lemma py_round1_nonneg: "0 \<le> x \<Longrightarrow> 0 \<le> py_round1 x"
  using py_round1_lower [of 0 x] by simp

lemma py_round1_between:
  "of_int a \<le> x \<Longrightarrow> x \<le> of_int b \<Longrightarrow> of_int a \<le> py_round1 x \<and> py_round1 x \<le> of_int b"
  using py_round1_lower [of "a * 10" x] py_round1_upper [of x "b * 10"] by simp

section \<open>Properties of the two curves\<close>

lemmas curve_consts = UNDERCODING_SEVERE_def UNDERCODING_NATIONAL_AVG_def
  SEVERE_LOW_def SEVERE_HIGH_def SWEET_SPOT_LOW_def SWEET_SPOT_HIGH_def

lemma undercoding_range:
  "0 \<le> score_undercoding_continuous ratio \<and> score_undercoding_continuous ratio \<le> 40"
proof (cases ratio)
  case None
  then show ?thesis by (simp add: score_undercoding_continuous_def)
next
  case (Some r)
  have "of_int 0 \<le> py_round1 x \<and> py_round1 x \<le> of_int 40" if "0 \<le> x" "x \<le> 40" for x
    using that py_round1_between [of 0 x 40] by simp
  then show ?thesis using Some
    by (auto simp: score_undercoding_continuous_def curve_consts)
qed

lemma undercoding_mono:
  assumes "15 / 100 < r" "r \<le> r'"
  shows "score_undercoding_continuous (Some r') \<le> score_undercoding_continuous (Some r)"
proof -
  let ?f = "\<lambda>x::real. 40 - ((x - 15 / 100) / (45 / 100 - 15 / 100)) * 25"
  have a: "py_round1 (?f r') \<le> py_round1 (?f r)"
    by (rule py_round1_mono) (use assms in simp)
  have b: "0 \<le> py_round1 (?f r)" if "r < 45 / 100"
    by (rule py_round1_nonneg) (use that in simp)
  show ?thesis using assms a b
    by (auto simp: score_undercoding_continuous_def curve_consts)
qed

text \<open>
  Claim C1. The undercoding score lies in [0, 40] for every ratio, missing or not; it
  does not increase as the ratio grows beyond 0.15; it is 10 for a missing or
  non-positive ratio, 40 for a ratio in (0, 0.15], 0 for a ratio of at least 0.45, and
  in between the linear interpolation 40 - (r - 0.15) / (0.45 - 0.15) * 25 rounded to
  one decimal.
\<close>

theorem score_undercoding_continuous_curve:
  "(0 \<le> score_undercoding_continuous ratio \<and> score_undercoding_continuous ratio \<le> 40)
   \<and> (15 / 100 < r \<and> r \<le> r' \<longrightarrow>
        score_undercoding_continuous (Some r') \<le> score_undercoding_continuous (Some r))
   \<and> score_undercoding_continuous None = 10
   \<and> (a \<le> 0 \<longrightarrow> score_undercoding_continuous (Some a) = 10)
   \<and> (0 < b \<and> b \<le> 15 / 100 \<longrightarrow> score_undercoding_continuous (Some b) = 40)
   \<and> (45 / 100 \<le> c \<longrightarrow> score_undercoding_continuous (Some c) = 0)
   \<and> (15 / 100 < d \<and> d < 45 / 100 \<longrightarrow>
        score_undercoding_continuous (Some d)
          = py_round1 (40 - (d - 15 / 100) / (45 / 100 - 15 / 100) * 25))"
proof -
  have "15 / 100 < r \<and> r \<le> r' \<longrightarrow>
        score_undercoding_continuous (Some r') \<le> score_undercoding_continuous (Some r)"
    using undercoding_mono by blast
  moreover have "score_undercoding_continuous None = 10"
    by (simp add: score_undercoding_continuous_def)
  moreover have "a \<le> 0 \<longrightarrow> score_undercoding_continuous (Some a) = 10"
    by (simp add: score_undercoding_continuous_def)
  moreover have "0 < b \<and> b \<le> 15 / 100 \<longrightarrow> score_undercoding_continuous (Some b) = 40"
    by (simp add: score_undercoding_continuous_def curve_consts)
  moreover have "45 / 100 \<le> c \<longrightarrow> score_undercoding_continuous (Some c) = 0"
    by (simp add: score_undercoding_continuous_def curve_consts)
  moreover have "15 / 100 < d \<and> d < 45 / 100 \<longrightarrow>
        score_undercoding_continuous (Some d)
          = py_round1 (40 - (d - 15 / 100) / (45 / 100 - 15 / 100) * 25)"
    by (simp add: score_undercoding_continuous_def curve_consts)
  ultimately show ?thesis using undercoding_range [of ratio] by blast
qed

theorem score_undercoding_continuous_curve_witness:
  "score_undercoding_continuous (Some (4 / 10)) \<le> score_undercoding_continuous (Some (3 / 10))
   \<and> score_undercoding_continuous (Some (- 1)) = 10
   \<and> score_undercoding_continuous (Some (1 / 10)) = 40
   \<and> score_undercoding_continuous (Some (6 / 10)) = 0
   \<and> score_undercoding_continuous (Some (3 / 10)) = 275 / 10"
proof -
  have "py_round1 (40 - (3 / 10 - 15 / 100) / (45 / 100 - 15 / 100) * 25) = 275 / 10"
    by (simp add: py_round1_def round_half_even_def)
  then show ?thesis
    using score_undercoding_continuous_curve
            [of "Some (3 / 10)" "3 / 10" "4 / 10" "- 1" "1 / 10" "6 / 10" "3 / 10"]
    by simp
qed

lemma psych_risk_range:
  "10 \<le> score_psych_risk_continuous ratio \<and> score_psych_risk_continuous ratio \<le> 40"
proof (cases ratio)
  case None
  then show ?thesis by (simp add: score_psych_risk_continuous_def)
next
  case (Some r)
  have "of_int 10 \<le> py_round1 x \<and> py_round1 x \<le> of_int 40" if "10 \<le> x" "x \<le> 40" for x
    using that py_round1_between [of 10 x 40] by simp
  then show ?thesis using Some
    by (auto simp: score_psych_risk_continuous_def curve_consts)
qed

lemma psych_risk_left_mono:
  assumes "0 < r" "r \<le> r'" "r' \<le> 40 / 100"
  shows "score_psych_risk_continuous (Some r') \<le> score_psych_risk_continuous (Some r)"
proof -
  let ?f = "\<lambda>x::real. 10 + ((40 / 100 - x) / (40 / 100 - 30 / 100)) * 30"
  have a: "py_round1 (?f r') \<le> py_round1 (?f r)"
    by (rule py_round1_mono) (use assms in simp)
  have b: "py_round1 (?f x) \<le> 40" if "30 / 100 < x" for x
    using py_round1_upper [of "?f x" 400] that by simp
  have c: "10 \<le> py_round1 (?f x)" if "x < 40 / 100" for x
    using py_round1_lower [of 100 "?f x"] that by simp
  show ?thesis using assms a b [of r'] c [of r]
    by (auto simp: score_psych_risk_continuous_def curve_consts)
qed

lemma psych_risk_right_mono:
  assumes "60 / 100 \<le> r" "r \<le> r'"
  shows "score_psych_risk_continuous (Some r) \<le> score_psych_risk_continuous (Some r')"
proof -
  let ?f = "\<lambda>x::real. 10 + ((x - 60 / 100) / (75 / 100 - 60 / 100)) * 30"
  have a: "py_round1 (?f r) \<le> py_round1 (?f r')"
    by (rule py_round1_mono) (use assms in simp)
  have b: "py_round1 (?f x) \<le> 40" if "x < 75 / 100" for x
    using py_round1_upper [of "?f x" 400] that by simp
  have c: "10 \<le> py_round1 (?f x)" if "60 / 100 < x" for x
    using py_round1_lower [of 100 "?f x"] that by simp
  show ?thesis using assms a b [of r] c [of r']
    by (auto simp: score_psych_risk_continuous_def curve_consts)
qed

lemma psych_risk_ramps:
  assumes "0 < t" "t < 1"
  shows "score_psych_risk_continuous (Some (40 / 100 - t * (10 / 100))) = py_round1 (10 + t * 30)"
    and "score_psych_risk_continuous (Some (60 / 100 + t * (15 / 100))) = py_round1 (10 + t * 30)"
proof -
  have "(40 / 100 - (40 / 100 - t * (10 / 100))) / (40 / 100 - 30 / 100) = t" by simp
  then show "score_psych_risk_continuous (Some (40 / 100 - t * (10 / 100))) = py_round1 (10 + t * 30)"
    using assms by (simp add: score_psych_risk_continuous_def curve_consts)
  have "(60 / 100 + t * (15 / 100) - 60 / 100) / (75 / 100 - 60 / 100) = t" by simp
  then show "score_psych_risk_continuous (Some (60 / 100 + t * (15 / 100))) = py_round1 (10 + t * 30)"
    using assms by (simp add: score_psych_risk_continuous_def curve_consts)
qed

text \<open>
  Claim C2, as amended. The psych-risk score lies in [10, 40] for every ratio. It is
  U-shaped around the plateau [0.40, 0.60] without being mirror-symmetric: it is 10 on
  the plateau and rises linearly to 40 on either side, as 10 + 30 t rounded to one
  decimal at 0.40 - 0.10 t on the left and at 0.60 + 0.15 t on the right (0 < t < 1),
  so over a ramp 0.10 wide on the left and 0.15 wide on the right, never decreasing
  while moving away from the plateau; it is 40 for every ratio in (0, 0.30] and every
  ratio of at least 0.75.
\<close>

theorem score_psych_risk_continuous_curve:
  "(10 \<le> score_psych_risk_continuous ratio \<and> score_psych_risk_continuous ratio \<le> 40)
   \<and> (40 / 100 \<le> p \<and> p \<le> 60 / 100 \<longrightarrow> score_psych_risk_continuous (Some p) = 10)
   \<and> (0 < t \<and> t < 1 \<longrightarrow>
        score_psych_risk_continuous (Some (40 / 100 - t * (10 / 100))) = py_round1 (10 + t * 30)
        \<and> score_psych_risk_continuous (Some (60 / 100 + t * (15 / 100))) = py_round1 (10 + t * 30))
   \<and> (0 < l \<and> l \<le> l' \<and> l' \<le> 40 / 100 \<longrightarrow>
        score_psych_risk_continuous (Some l') \<le> score_psych_risk_continuous (Some l))
   \<and> (60 / 100 \<le> h \<and> h \<le> h' \<longrightarrow>
        score_psych_risk_continuous (Some h) \<le> score_psych_risk_continuous (Some h'))
   \<and> (0 < a \<and> a \<le> 30 / 100 \<longrightarrow> score_psych_risk_continuous (Some a) = 40)
   \<and> (75 / 100 \<le> b \<longrightarrow> score_psych_risk_continuous (Some b) = 40)"
proof -
  have "40 / 100 \<le> p \<and> p \<le> 60 / 100 \<longrightarrow> score_psych_risk_continuous (Some p) = 10"
    by (simp add: score_psych_risk_continuous_def curve_consts)
  moreover have "0 < t \<and> t < 1 \<longrightarrow>
        score_psych_risk_continuous (Some (40 / 100 - t * (10 / 100))) = py_round1 (10 + t * 30)
        \<and> score_psych_risk_continuous (Some (60 / 100 + t * (15 / 100))) = py_round1 (10 + t * 30)"
    using psych_risk_ramps by blast
  moreover have "0 < l \<and> l \<le> l' \<and> l' \<le> 40 / 100 \<longrightarrow>
        score_psych_risk_continuous (Some l') \<le> score_psych_risk_continuous (Some l)"
    using psych_risk_left_mono by blast
  moreover have "60 / 100 \<le> h \<and> h \<le> h' \<longrightarrow>
        score_psych_risk_continuous (Some h) \<le> score_psych_risk_continuous (Some h')"
    using psych_risk_right_mono by blast
  moreover have "0 < a \<and> a \<le> 30 / 100 \<longrightarrow> score_psych_risk_continuous (Some a) = 40"
    by (simp add: score_psych_risk_continuous_def curve_consts)
  moreover have "75 / 100 \<le> b \<longrightarrow> score_psych_risk_continuous (Some b) = 40"
    by (simp add: score_psych_risk_continuous_def curve_consts)
  ultimately show ?thesis using psych_risk_range [of ratio] by blast
qed

text \<open>
  The curve is not symmetric around the plateau: at the same distance 0.05 from it the
  score is 25 below the plateau and 20 above it, and at the distance 0.10 it is 40
  below and 30 above.
\<close>

theorem score_psych_risk_continuous_curve_counterexample:
  "score_psych_risk_continuous (Some (40 / 100 - 5 / 100)) = 25
   \<and> score_psych_risk_continuous (Some (60 / 100 + 5 / 100)) = 20
   \<and> score_psych_risk_continuous (Some (40 / 100 - 5 / 100))
       \<noteq> score_psych_risk_continuous (Some (60 / 100 + 5 / 100))
   \<and> score_psych_risk_continuous (Some (40 / 100 - 10 / 100)) = 40
   \<and> score_psych_risk_continuous (Some (60 / 100 + 10 / 100)) = 30"
  by (simp add: score_psych_risk_continuous_def curve_consts py_round1_def round_half_even_def)

theorem score_psych_risk_continuous_curve_witness:
  "score_psych_risk_continuous (Some (50 / 100)) = 10
   \<and> score_psych_risk_continuous (Some (35 / 100)) = 25
   \<and> score_psych_risk_continuous (Some (675 / 1000)) = 25
   \<and> score_psych_risk_continuous (Some (35 / 100)) \<le> score_psych_risk_continuous (Some (32 / 100))
   \<and> score_psych_risk_continuous (Some (65 / 100)) \<le> score_psych_risk_continuous (Some (70 / 100))
   \<and> score_psych_risk_continuous (Some (20 / 100)) = 40
   \<and> score_psych_risk_continuous (Some (80 / 100)) = 40"
proof -
  have "py_round1 (10 + 1 / 2 * 30) = 25"
    by (simp add: py_round1_def round_half_even_def)
  then show ?thesis
    using score_psych_risk_continuous_curve
            [of "Some (50 / 100)" "50 / 100" "1 / 2" "32 / 100" "35 / 100"
                "65 / 100" "70 / 100" "20 / 100" "80 / 100"]
    by simp
qed

section \<open>Bounds of the sub-scores\<close>

lemma track_cases: "track row = ''BEHAVIORAL'' \<or> track row = ''POST_ACUTE'' \<or> track row = ''AMBULATORY''"
  by (simp add: track_def detect_track_def Let_def)

lemma pain_behavioral_ge: "10 \<le> pain_behavioral row"
proof -
  have "10 \<le> score_psych_risk_continuous (Some (psych_risk row))" using psych_risk_range by blast
  then show ?thesis
    by (auto simp: pain_behavioral_def Let_def split: option.splits)
qed

lemma pain_post_acute_ge: "10 \<le> pain_post_acute row"
proof -
  have "10 \<le> py_round1 (25 + (5 / 100 - m) / (5 / 100) * 15)" if "m < 5 / 100" for m :: real
    using py_round1_lower [of 100 "25 + (5 / 100 - m) / (5 / 100) * 15"] that by simp
  then show ?thesis
    by (auto simp: pain_post_acute_def split: option.splits)
qed

lemma score_procedure_alignment_nonneg: "0 \<le> score_procedure_alignment row"
  by (auto simp: score_procedure_alignment_def Let_def PROCEDURE_DEFICIT_THRESHOLD_def
           split: option.splits intro!: py_round1_nonneg)

lemma pain_therapy_nonneg: "0 \<le> pain_therapy row"
  using psych_risk_range [of "Some (psych_risk row)"] by (simp add: pain_therapy_def)

lemma pain_ambulatory_nonneg: "0 \<le> pain_ambulatory row"
  using undercoding_range [of "Some (undercoding row)"] pain_therapy_nonneg [of row]
    score_procedure_alignment_nonneg [of row]
  by (simp add: pain_ambulatory_def pain_undercoding_def pain_procedure_alignment_def Let_def)

lemma pain_nonneg: "0 \<le> pain row"
  using pain_behavioral_ge [of row] pain_post_acute_ge [of row] pain_ambulatory_nonneg [of row]
  by (simp add: pain_def)

lemma score_provider_count_nonneg:
  assumes "score_provider_count_continuous n = Some c"
  shows "0 \<le> c"
proof -
  have "0 \<le> py_round1 ((ln x / ln 100) * 10)" if "1 < x" for x :: real
    by (rule py_round1_nonneg) (use that in simp)
  then show ?thesis using assms
    by (auto simp: score_provider_count_continuous_def split: option.splits if_splits)
qed

lemma s2_align_nonneg: "0 \<le> s2_align row"
  by (simp add: s2_align_def segment_alignment_scores_def)

lemma fit_nonneg:
  assumes "fit row = Some f"
  shows "0 \<le> f"
proof -
  from assms obtain c where c: "s2_complex row = Some c"
    by (auto simp: fit_def split: option.splits)
  then have c0: "0 \<le> c" by (auto simp: s2_complex_def dest: score_provider_count_nonneg)
  have v: "0 \<le> score_behavioral_vbc_readiness row"
    by (simp add: score_behavioral_vbc_readiness_def Let_def split: option.splits)
  have t: "0 \<le> s2_tech_risk row" by (simp add: s2_tech_risk_def)
  have m: "0 \<le> s2_mips row" by (simp add: s2_mips_def split: option.splits)
  have h: "0 \<le> s2_hpsa_mua row" by (simp add: s2_hpsa_mua_def)
  show ?thesis using assms c c0 v t m h s2_align_nonneg [of row]
    by (auto simp: fit_def split: if_splits intro!: py_round1_nonneg)
qed

lemma fit_defined:
  assumes "npi_count row \<noteq> NaN"
  shows "\<exists>f. fit row = Some f"
  using assms
  by (cases "npi_count row")
     (simp_all add: fit_def s2_complex_def npi_count'_def score_provider_count_continuous_def)

lemma score_revenue_nonneg: "0 \<le> score_revenue_continuous r s"
  by (auto simp: score_revenue_continuous_def Let_def split: option.splits intro!: py_round1_nonneg)

lemma score_volume_nonneg: "0 \<le> score_volume_continuous v b"
  by (auto simp: score_volume_continuous_def Let_def split: option.splits intro!: py_round1_nonneg)

lemma score_behavioral_volume_nonneg: "0 \<le> score_behavioral_volume_continuous v b"
  by (auto simp: score_behavioral_volume_continuous_def Let_def split: option.splits intro!: py_round1_nonneg)

lemma strat_nonneg: "0 \<le> strat row"
proof -
  have "0 \<le> s3_revenue row"
    by (auto simp: s3_revenue_def score_revenue_nonneg intro!: py_round1_nonneg)
  moreover have "0 \<le> s3_volume row"
    by (simp add: s3_volume_def score_volume_nonneg score_behavioral_volume_nonneg)
  ultimately show ?thesis by (simp add: strat_def py_round1_nonneg)
qed

lemma total_nonneg:
  assumes "total row = Some t"
  shows "0 \<le> t"
proof -
  from assms obtain f where f: "fit row = Some f" and t: "t = py_round1 (pain row + f + strat row)"
    by (auto simp: total_def split: option.splits)
  from f have "0 \<le> f" by (rule fit_nonneg)
  then show ?thesis using pain_nonneg [of row] strat_nonneg [of row]
    by (simp add: t py_round1_nonneg)
qed

section \<open>Claims about the scoring engine\<close>

lemmas upper_simps = py_upper_def upper_char_def behavioral_keywords_def
lemmas fixture_defs = base_clinic_data_def cardiology_clinic_def low_revenue_hospital_def
  high_revenue_hospital_def no_revenue_hospital_def integrated_practice_def
  psych_only_practice_def behavioral_clinic_994_def

text \<open>
  Claim C3. The therapy pain that enters the ambulatory pain is decided by the gate of
  the specification, a function of the therapy share and the psych-code count alone:
  it is the psych-risk score when the share exceeds 0.20, the count is at least 100 and
  the psych-risk ratio is positive, and 0 otherwise, and with the gate closed the
  ambulatory pain is the undercoding pain plus the procedure-alignment layer. When the
  evaluation-code volume is missing or not positive the share is 0, so the gate is
  closed whatever the psych volume; otherwise the share is psych / (psych + eval).
\<close>

theorem therapy_relevance_gate:
  "pain_therapy row =
     (if spec_therapy_gate (psych_percentage row) (or_zero (total_psych_codes row))
      then (if psych_risk row > 0 then score_psych_risk_continuous (Some (psych_risk row)) else 0)
      else 0)
   \<and> ((total_eval_codes row = None \<or> (\<exists>v. total_eval_codes row = Some v \<and> v \<le> 0)) \<longrightarrow>
        psych_percentage row = 0
        \<and> \<not> spec_therapy_gate (psych_percentage row) (or_zero (total_psych_codes row))
        \<and> pain_therapy row = 0)
   \<and> (\<forall>e p. total_eval_codes row = Some e \<and> 0 < e \<and> total_psych_codes row = Some p \<and> 0 \<le> p \<longrightarrow>
        psych_percentage row = p / (p + e))
   \<and> (\<not> spec_therapy_gate (psych_percentage row) (or_zero (total_psych_codes row)) \<longrightarrow>
        pain_ambulatory row =
          (if pain_procedure_alignment row > 0
           then min 40 (pain_undercoding row + pain_procedure_alignment row)
           else pain_undercoding row))"
proof -
  have u: "0 \<le> pain_undercoding row"
    using undercoding_range [of "Some (undercoding row)"] by (simp add: pain_undercoding_def)
  have a: "pain_therapy row =
     (if spec_therapy_gate (psych_percentage row) (or_zero (total_psych_codes row))
      then (if psych_risk row > 0 then score_psych_risk_continuous (Some (psych_risk row)) else 0)
      else 0)"
    by (simp add: pain_therapy_def spec_therapy_gate_def)
  have b: "(total_eval_codes row = None \<or> (\<exists>v. total_eval_codes row = Some v \<and> v \<le> 0)) \<longrightarrow>
        psych_percentage row = 0
        \<and> \<not> spec_therapy_gate (psych_percentage row) (or_zero (total_psych_codes row))
        \<and> pain_therapy row = 0"
    by (auto simp: pain_therapy_def spec_therapy_gate_def psych_percentage_def
        eval_codes_available_def)
  have c: "\<forall>e p. total_eval_codes row = Some e \<and> 0 < e \<and> total_psych_codes row = Some p \<and> 0 \<le> p \<longrightarrow>
        psych_percentage row = p / (p + e)"
    by (auto simp: psych_percentage_def eval_codes_available_def or_zero_def Let_def)
  have d: "\<not> spec_therapy_gate (psych_percentage row) (or_zero (total_psych_codes row)) \<longrightarrow>
        pain_ambulatory row =
          (if pain_procedure_alignment row > 0
           then min 40 (pain_undercoding row + pain_procedure_alignment row)
           else pain_undercoding row)"
    using u by (simp add: a pain_ambulatory_def Let_def)
  show ?thesis using a b c d by blast
qed

theorem therapy_relevance_gate_witness:
  "pain_therapy integrated_practice = 40
   \<and> spec_therapy_gate (psych_percentage integrated_practice) 300
   \<and> psych_percentage integrated_practice = 1 / 4
   \<and> psych_percentage psych_only_practice = 0
   \<and> pain_therapy psych_only_practice = 0"
  using therapy_relevance_gate [of integrated_practice] therapy_relevance_gate [of psych_only_practice]
  by (simp add: fixture_defs spec_therapy_gate_def or_zero_def psych_risk_def
      score_psych_risk_continuous_def curve_consts)

text \<open>
  Claim C7. For a row labelled Hospital, the segment in the result is Ambulatory Center
  when the revenue found by the fallback chain is below 10,000,000, and stays Hospital
  when that revenue is at least 10,000,000 or when the chain finds no revenue.
\<close>

theorem hospital_segment_correction:
  "segment_label row = Some ''Hospital'' \<Longrightarrow>
     (\<forall>rv. real_revenue row = Some rv \<and> rv < 10000000 \<longrightarrow>
        result_segment_label (calculate_row_score row) = ''Ambulatory Center'')
     \<and> (\<forall>rv. real_revenue row = Some rv \<and> rv \<ge> 10000000 \<longrightarrow>
        result_segment_label (calculate_row_score row) = ''Hospital'')
     \<and> (real_revenue row = None \<longrightarrow>
        result_segment_label (calculate_row_score row) = ''Hospital'')"
  by (auto simp: calculate_row_score_def segment_def)

theorem hospital_segment_correction_witness:
  "result_segment_label (calculate_row_score low_revenue_hospital) = ''Ambulatory Center''
   \<and> result_segment_label (calculate_row_score high_revenue_hospital) = ''Hospital''
   \<and> result_segment_label (calculate_row_score no_revenue_hospital) = ''Hospital''"
  using hospital_segment_correction [of low_revenue_hospital]
    hospital_segment_correction [of high_revenue_hospital]
    hospital_segment_correction [of no_revenue_hospital]
  by (simp add: fixture_defs real_revenue_def)

text \<open>
  Claim C9. No row gets the pain label "Low Pain - Strong Documentation": on the
  behavioral and ambulatory tracks the winning condition asks for a psych-risk score
  of 0, which the curve never returns, and the post-acute track has a fixed label.
\<close>

theorem low_pain_label_unreachable:
  "pain_label (calculate_row_score row) \<noteq> ''Low Pain - Strong Documentation''
   \<and> score_psych_risk_continuous ratio \<noteq> 0"
proof -
  have ne: "score_psych_risk_continuous r \<noteq> 0" for r
    using psych_risk_range [of r] by auto
  have "pain_label_behavioral row \<noteq> ''Low Pain - Strong Documentation''"
    by (simp add: pain_label_behavioral_def Let_def ne)
  moreover have "pain_label_ambulatory row \<noteq> ''Low Pain - Strong Documentation''"
    by (simp add: pain_label_ambulatory_def Let_def ne)
  ultimately show ?thesis
    by (simp add: calculate_row_score_def pain_label_of_def ne)
qed

text \<open>
  Claim C10. Track selection reads the segment label of the input row: a Hospital with
  known revenue below 10,000,000 and no behavioral keyword in its name is scored on the
  POST_ACUTE track, its pain is the margin-based pain, and its segment in the result
  is the corrected Ambulatory Center.
\<close>

theorem track_reads_uncorrected_segment:
  assumes "segment_label row = Some ''Hospital''"
    and "real_revenue row = Some rv" and "rv < 10000000"
    and "\<not> list_ex (\<lambda>keyword. str_contains (py_upper (org_name row)) keyword) behavioral_keywords"
  shows "scoring_track (calculate_row_score row) = ''POST_ACUTE''
     \<and> result_segment_label (calculate_row_score row) = ''Ambulatory Center''
     \<and> pain row = pain_post_acute row
     \<and> score_pain_total (calculate_row_score row) = py_round1 (pain_post_acute row)
     \<and> pain_label (calculate_row_score row) = ''Margin Pressure''"
proof -
  have t: "track row = ''POST_ACUTE''"
    using assms by (simp add: track_def detect_track_def Let_def)
  have s: "segment row = ''Ambulatory Center''"
    using assms by (simp add: segment_def)
  show ?thesis
    by (simp add: calculate_row_score_def t s pain_def pain_label_of_def)
qed

theorem track_reads_uncorrected_segment_witness:
  "scoring_track (calculate_row_score low_revenue_hospital) = ''POST_ACUTE''
   \<and> result_segment_label (calculate_row_score low_revenue_hospital) = ''Ambulatory Center''
   \<and> score_pain_total (calculate_row_score low_revenue_hospital) = 10
   \<and> pain_label (calculate_row_score low_revenue_hospital) = ''Margin Pressure''"
proof -
  have a: "segment_label low_revenue_hospital = Some ''Hospital''"
    by (simp add: fixture_defs)
  have b: "real_revenue low_revenue_hospital = Some 5000000"
    by (simp add: fixture_defs real_revenue_def)
  have c: "\<not> list_ex (\<lambda>keyword. str_contains (py_upper (org_name low_revenue_hospital)) keyword)
             behavioral_keywords"
    by (simp add: fixture_defs upper_simps)
  have d: "py_round1 (pain_post_acute low_revenue_hospital) = 10"
    by (simp add: fixture_defs pain_post_acute_def py_round1_def round_half_even_def)
  show ?thesis
    using track_reads_uncorrected_segment [OF a b _ c] d by simp
qed

lemma tier_cases:
  assumes "total row = Some t"
  shows "(tier row = ''Tier 1'' \<longleftrightarrow> t \<ge> 70)
   \<and> (tier row = ''Tier 2'' \<longleftrightarrow> 50 \<le> t \<and> t < 70)
   \<and> (tier row = ''Tier 3'' \<longleftrightarrow> 30 \<le> t \<and> t < 50)
   \<and> (tier row = ''Tier 4'' \<longleftrightarrow> t < 30)"
  using assms by (auto simp: tier_def)

text \<open>
  Claim C5, as amended. For every row whose provider-count cell is absent or a number,
  the total is the sum of pain, fit and strategy rounded to one decimal; the score in
  the result is the smaller of 100 and the total and lies in [0, 100]; the tier is
  Tier 1 exactly when the total is at least 70, Tier 2 exactly when it is in [50, 70),
  Tier 3 exactly when it is in [30, 50), and Tier 4 exactly when it is below 30.
\<close>

theorem total_and_tier:
  assumes "npi_count row \<noteq> NaN"
  shows "\<exists>f t. fit row = Some f \<and> total row = Some t
     \<and> t = py_round1 (pain row + f + strat row)
     \<and> icp_score (calculate_row_score row) = min 100 t
     \<and> 0 \<le> icp_score (calculate_row_score row) \<and> icp_score (calculate_row_score row) \<le> 100
     \<and> (icp_tier (calculate_row_score row) = ''Tier 1'' \<longleftrightarrow> t \<ge> 70)
     \<and> (icp_tier (calculate_row_score row) = ''Tier 2'' \<longleftrightarrow> 50 \<le> t \<and> t < 70)
     \<and> (icp_tier (calculate_row_score row) = ''Tier 3'' \<longleftrightarrow> 30 \<le> t \<and> t < 50)
     \<and> (icp_tier (calculate_row_score row) = ''Tier 4'' \<longleftrightarrow> t < 30)"
proof -
  from assms obtain f where f: "fit row = Some f" using fit_defined by blast
  define t where "t = py_round1 (pain row + f + strat row)"
  have tot: "total row = Some t" by (simp add: total_def f t_def)
  have nn: "0 \<le> t" using tot by (rule total_nonneg)
  have sc: "icp_score (calculate_row_score row) = min 100 t"
    by (simp add: calculate_row_score_def tot)
  have ti: "icp_tier (calculate_row_score row) = tier row"
    by (simp add: calculate_row_score_def)
  show ?thesis
    using f tot t_def nn sc tier_cases [OF tot] unfolding ti by auto
qed

text \<open>
  With a NaN in the provider-count cell, which the source does not test for, the
  total is NaN, the tier stays Tier 4 and the score in the result is 100.
\<close>

lemma nan_provider_count:
  assumes "npi_count row = NaN"
  shows "total row = None \<and> icp_score (calculate_row_score row) = 100
     \<and> icp_tier (calculate_row_score row) = ''Tier 4''"
  using assms
  by (simp add: calculate_row_score_def tier_def total_def fit_def s2_complex_def
      npi_count'_def score_provider_count_continuous_def)

lemma nan_provider_clinic_score:
  "icp_score (calculate_row_score nan_provider_clinic) = 100
   \<and> icp_tier (calculate_row_score nan_provider_clinic) = ''Tier 4''"
  using nan_provider_count [of nan_provider_clinic] by (simp add: nan_provider_clinic_def)

lemma bh_track: "track behavioral_clinic_994 = ''BEHAVIORAL''"
  by (simp add: fixture_defs track_def detect_track_def)

lemma bh_pain: "pain behavioral_clinic_994 = 1497 / 100"
  by (simp add: pain_def bh_track pain_behavioral_def)
     (simp add: fixture_defs psych_risk_def or_zero_def score_psych_risk_continuous_def curve_consts)

lemma bh_complex: "s2_complex behavioral_clinic_994 = Some 10"
  by (simp add: s2_complex_def npi_count'_def score_provider_count_continuous_def fixture_defs)

lemma bh_fit: "fit behavioral_clinic_994 = Some 25"
  by (simp add: fit_def bh_track bh_complex s2_align_def score_behavioral_vbc_readiness_def)
     (simp add: fixture_defs is_true_def py_lower_def lower_char_def py_round1_def round_half_even_def)

lemma bh_strat: "strat behavioral_clinic_994 = 30"
  by (simp add: strat_def s3_revenue_def s3_volume_def bh_track est_rev_def real_revenue_def
      vol_metric_def is_verified_volume_def score_behavioral_volume_continuous_def)
     (simp add: fixture_defs py_upper_def upper_char_def py_round1_def round_half_even_def)

lemma bh_total: "total behavioral_clinic_994 = Some 70"
  by (simp add: total_def bh_pain bh_fit bh_strat py_round1_def round_half_even_def)

text \<open>
  The claim without the rounding fails: the behavioral clinic below has a pain of
  14.97 (10 plus the unrounded volume bonus 994 / 1000 * 5), a fit of 25 and a strategy
  score of 30. Their sum 69.97 is below 70, the total is 70.0 and the tier is Tier 1.
\<close>

theorem total_and_tier_counterexample:
  "fit behavioral_clinic_994 = Some 25
   \<and> pain behavioral_clinic_994 + 25 + strat behavioral_clinic_994 = 6997 / 100
   \<and> total behavioral_clinic_994 = Some 70
   \<and> total behavioral_clinic_994
       \<noteq> Some (pain behavioral_clinic_994 + 25 + strat behavioral_clinic_994)
   \<and> icp_tier (calculate_row_score behavioral_clinic_994) = ''Tier 1''
   \<and> \<not> (pain behavioral_clinic_994 + 25 + strat behavioral_clinic_994 \<ge> 70)"
  by (simp add: bh_pain bh_fit bh_strat bh_total calculate_row_score_def tier_def)

theorem total_and_tier_witness:
  "npi_count behavioral_clinic_994 \<noteq> NaN
   \<and> icp_score (calculate_row_score behavioral_clinic_994) = 70
   \<and> icp_tier (calculate_row_score behavioral_clinic_994) = ''Tier 1''"
proof -
  have n: "npi_count behavioral_clinic_994 \<noteq> NaN" by (simp add: fixture_defs)
  from total_and_tier [OF n] n show ?thesis by (auto simp: bh_total)
qed

lemma cardio_track: "track cardiology_clinic = ''AMBULATORY''"
  by (simp add: fixture_defs track_def detect_track_def upper_simps)

text \<open>
  The scenario row of the unit test: the undercoding score at 0.6 is 0, since 0.6 is at
  or above the national average, and so is the pain score of the row; it is not 10.
\<close>

theorem undercoding_scenario_counterexample:
  "segment_label cardiology_clinic = Some ''Private Practice''
   \<and> undercoding_ratio cardiology_clinic = Some (6 / 10)
   \<and> total_psych_codes cardiology_clinic = Some 10
   \<and> scoring_track (calculate_row_score cardiology_clinic) = ''AMBULATORY''
   \<and> score_undercoding_continuous (Some (6 / 10)) = 0
   \<and> score_pain_total (calculate_row_score cardiology_clinic) = 0
   \<and> score_pain_total (calculate_row_score cardiology_clinic) \<noteq> 10"
proof -
  have "pain cardiology_clinic = 0"
    by (simp add: pain_def cardio_track pain_ambulatory_def pain_therapy_def pain_undercoding_def
        pain_procedure_alignment_def score_procedure_alignment_def psych_percentage_def
        eval_codes_available_def undercoding_def)
       (simp add: fixture_defs or_zero_def get_expected_procedure_ratio_def
        score_undercoding_continuous_def curve_consts)
  then show ?thesis
    by (simp add: calculate_row_score_def cardio_track py_round1_def round_half_even_def
        score_undercoding_continuous_def curve_consts)
       (simp add: fixture_defs)
qed

text \<open>
  Claim C6, as amended. A Private Practice row with no behavioral keyword in its name,
  an undercoding ratio of 0.6, 10 psych codes and no procedure-alignment pain is on the
  AMBULATORY track, its therapy gate is closed, its pain label is "Undercoding Pain"
  and its pain score is the undercoding score at 0.6, which is 0.
\<close>

theorem undercoding_scenario:
  assumes "segment_label row = Some ''Private Practice''"
    and "\<not> list_ex (\<lambda>keyword. str_contains (py_upper (org_name row)) keyword) behavioral_keywords"
    and "undercoding_ratio row = Some (6 / 10)"
    and "total_psych_codes row = Some 10"
    and "score_procedure_alignment row = 0"
  shows "scoring_track (calculate_row_score row) = ''AMBULATORY''
     \<and> \<not> spec_therapy_gate (psych_percentage row) (or_zero (total_psych_codes row))
     \<and> pain_therapy row = 0
     \<and> pain_label (calculate_row_score row) = ''Undercoding Pain''
     \<and> score_pain_total (calculate_row_score row) = score_undercoding_continuous (Some (6 / 10))
     \<and> score_undercoding_continuous (Some (6 / 10)) = 0"
proof -
  have t: "track row = ''AMBULATORY''"
    using assms(1,2) by (simp add: track_def detect_track_def Let_def)
  have u: "undercoding row = 6 / 10" using assms(3) by (simp add: undercoding_def or_zero_def)
  have g: "\<not> spec_therapy_gate (psych_percentage row) (or_zero (total_psych_codes row))"
    using assms(4) by (simp add: spec_therapy_gate_def or_zero_def)
  have pt: "pain_therapy row = 0"
    using assms(4) by (simp add: pain_therapy_def or_zero_def)
  have su: "score_undercoding_continuous (Some (6 / 10)) = 0"
    by (simp add: score_undercoding_continuous_def curve_consts)
  have p: "pain row = 0"
    using su
    by (simp add: pain_def t pain_ambulatory_def pt pain_undercoding_def u
        pain_procedure_alignment_def assms(5))
  have ne: "score_psych_risk_continuous r \<noteq> 0" for r
    using psych_risk_range [of r] by auto
  have l: "pain_label_ambulatory row = ''Undercoding Pain''"
    using assms(4)
    by (simp add: pain_label_ambulatory_def Let_def ne pain_procedure_alignment_def assms(5)
        or_zero_def)
  show ?thesis
    using su
    by (simp add: calculate_row_score_def t g pt p l pain_label_of_def py_round1_def
        round_half_even_def)
qed

theorem undercoding_scenario_witness:
  "scoring_track (calculate_row_score cardiology_clinic) = ''AMBULATORY''
   \<and> pain_therapy cardiology_clinic = 0
   \<and> pain_label (calculate_row_score cardiology_clinic) = ''Undercoding Pain''
   \<and> score_pain_total (calculate_row_score cardiology_clinic) = 0"
proof -
  have a: "segment_label cardiology_clinic = Some ''Private Practice''"
    by (simp add: fixture_defs)
  have b: "\<not> list_ex (\<lambda>keyword. str_contains (py_upper (org_name cardiology_clinic)) keyword)
             behavioral_keywords"
    by (simp add: fixture_defs upper_simps)
  have c: "undercoding_ratio cardiology_clinic = Some (6 / 10)" by (simp add: fixture_defs)
  have d: "total_psych_codes cardiology_clinic = Some 10" by (simp add: fixture_defs)
  have e: "score_procedure_alignment cardiology_clinic = 0"
    by (simp add: fixture_defs score_procedure_alignment_def get_expected_procedure_ratio_def)
  show ?thesis using undercoding_scenario [OF a b c d e] by simp
qed

section \<open>Rounding to double precision\<close>

lemma round_half_even_of_int [simp]: "round_half_even (of_int k) = k"
  by (simp add: round_half_even_def)

lemma fl_zero [simp]: "fl 0 = 0"
  by (simp add: fl_def)

lemma exponent_unique:
  fixes x :: real
  assumes "2 powr of_int e \<le> \<bar>x\<bar>" and "\<bar>x\<bar> < 2 powr (of_int e + 1)"
  shows "\<lfloor>log 2 \<bar>x\<bar>\<rfloor> = e"
proof -
  have "0 < \<bar>x\<bar>" using assms(1) powr_gt_zero [of 2 "of_int e"] by linarith
  then show ?thesis using assms floor_log_eq_powr_iff [of "\<bar>x\<bar>" 2 e] by simp
qed

lemma exponent_bounds:
  fixes x :: real
  assumes "x \<noteq> 0"
  shows "2 powr of_int \<lfloor>log 2 \<bar>x\<bar>\<rfloor> \<le> \<bar>x\<bar>" and "\<bar>x\<bar> < 2 powr (of_int \<lfloor>log 2 \<bar>x\<bar>\<rfloor> + 1)"
  using assms floor_log_eq_powr_iff [of "\<bar>x\<bar>" 2 "\<lfloor>log 2 \<bar>x\<bar>\<rfloor>"] by auto

lemma fl_eq:
  assumes "2 powr of_int e \<le> \<bar>x\<bar>" and "\<bar>x\<bar> < 2 powr (of_int e + 1)"
  shows "fl x = of_int (round_half_even (x / 2 powr (of_int e - 52))) * 2 powr (of_int e - 52)"
proof -
  have "x \<noteq> 0" using assms(1) powr_gt_zero [of 2 "of_int e"] by auto
  then show ?thesis using exponent_unique [OF assms] by (simp add: fl_def Let_def)
qed

lemma fl_nonneg: "0 \<le> x \<Longrightarrow> 0 \<le> fl x"
proof -
  assume x: "0 \<le> x"
  have "0 \<le> round_half_even (x / u)" if "0 < u" for u
    using round_half_even_lower [of 0 "x / u"] x that by simp
  then show ?thesis by (simp add: fl_def Let_def)
qed

lemma ulp_scale:
  fixes e :: int
  shows "2 ^ 52 * (2::real) powr (of_int e - 52) = 2 powr of_int e"
    and "2 ^ 53 * (2::real) powr (of_int e - 52) = 2 powr (of_int e + 1)"
proof -
  have "(2::real) powr 52 = 2 ^ 52" by (simp add: powr_numeral)
  then have a: "(2::real) ^ 52 * 2 powr (of_int e - 52) = 2 powr (52 + (of_int e - 52))"
    by (simp only: powr_add)
  show "2 ^ 52 * (2::real) powr (of_int e - 52) = 2 powr of_int e"
    using a by simp
  have "(2::real) powr 53 = 2 ^ 53" by (simp add: powr_numeral)
  then have b: "(2::real) ^ 53 * 2 powr (of_int e - 52) = 2 powr (53 + (of_int e - 52))"
    by (simp only: powr_add)
  show "2 ^ 53 * (2::real) powr (of_int e - 52) = 2 powr (of_int e + 1)"
    using b by (simp add: add.commute)
qed

lemma scaled_range:
  fixes x :: real
  assumes "2 powr of_int e \<le> x" "x < 2 powr (of_int e + 1)"
  shows "2 ^ 52 \<le> x / 2 powr (of_int e - 52)" and "x / 2 powr (of_int e - 52) < 2 ^ 53"
proof -
  have u: "0 < (2::real) powr (of_int e - 52)" by simp
  show "2 ^ 52 \<le> x / 2 powr (of_int e - 52)"
    using assms(1) by (simp only: pos_le_divide_eq [OF u] ulp_scale)
  show "x / 2 powr (of_int e - 52) < 2 ^ 53"
    using assms(2) by (simp only: pos_divide_less_eq [OF u] ulp_scale)
qed

lemma fl_bounds:
  fixes x :: real
  assumes "2 powr of_int e \<le> x" "x < 2 powr (of_int e + 1)"
  shows "2 powr of_int e \<le> fl x" and "fl x \<le> 2 powr (of_int e + 1)"
proof -
  let ?u = "(2::real) powr (of_int e - 52)"
  let ?K = "round_half_even (x / ?u)"
  have u: "0 < ?u" by simp
  have x: "0 < x" using assms(1) powr_gt_zero [of 2 "of_int e"] by linarith
  have f: "fl x = of_int ?K * ?u"
    using assms x by (intro fl_eq) simp_all
  have "(2 ^ 52 :: real) = of_int (2 ^ 52)" by simp
  then have "of_int (2 ^ 52) \<le> x / ?u" using scaled_range(1) [OF assms] by simp
  then have "(2 ^ 52 :: int) \<le> ?K" by (rule round_half_even_lower)
  then have "(of_int (2 ^ 52) :: real) \<le> of_int ?K" by (simp only: of_int_le_iff)
  then have "(2 ^ 52 :: real) \<le> of_int ?K" by simp
  then have "2 ^ 52 * ?u \<le> of_int ?K * ?u"
    using u by (simp only: mult_le_cancel_right_pos)
  then show "2 powr of_int e \<le> fl x" by (simp only: f ulp_scale)
  have "(2 ^ 53 :: real) = of_int (2 ^ 53)" by simp
  then have "x / ?u \<le> of_int (2 ^ 53)" using scaled_range(2) [OF assms] by simp
  then have "?K \<le> (2 ^ 53 :: int)" by (rule round_half_even_upper)
  then have "(of_int ?K :: real) \<le> of_int (2 ^ 53)" by (simp only: of_int_le_iff)
  then have "of_int ?K \<le> (2 ^ 53 :: real)" by simp
  then have "of_int ?K * ?u \<le> 2 ^ 53 * ?u"
    using u by (simp only: mult_le_cancel_right_pos)
  then show "fl x \<le> 2 powr (of_int e + 1)" by (simp only: f ulp_scale)
qed

lemma fl_exact:
  assumes "x \<noteq> 0" and "x / 2 powr (of_int \<lfloor>log 2 \<bar>x\<bar>\<rfloor> - 52) = of_int k"
  shows "fl x = x"
proof -
  let ?u = "(2::real) powr (of_int \<lfloor>log 2 \<bar>x\<bar>\<rfloor> - 52)"
  have u: "?u \<noteq> 0" by simp
  have "fl x = of_int (round_half_even (x / ?u)) * ?u" using assms(1) by (simp add: fl_def Let_def)
  also have "\<dots> = x / ?u * ?u" by (simp only: assms(2) round_half_even_of_int)
  also have "\<dots> = x" using u by simp
  finally show ?thesis .
qed

lemma fl_mono_pos:
  assumes "0 < x" "x \<le> y"
  shows "fl x \<le> fl y"
proof -
  let ?ex = "\<lfloor>log 2 \<bar>x\<bar>\<rfloor>" and ?ey = "\<lfloor>log 2 \<bar>y\<bar>\<rfloor>"
  have y: "0 < y" using assms by linarith
  have hx: "2 powr of_int ?ex \<le> x" "x < 2 powr (of_int ?ex + 1)"
    using exponent_bounds [of x] assms(1) by simp_all
  have hy: "2 powr of_int ?ey \<le> y" "y < 2 powr (of_int ?ey + 1)"
    using exponent_bounds [of y] y by simp_all
  have "log 2 x \<le> log 2 y" using assms y by simp
  then have le: "?ex \<le> ?ey" using assms(1) y by (simp add: floor_mono)
  show ?thesis
  proof (cases "?ex = ?ey")
    case True
    let ?u = "(2::real) powr (of_int ?ey - 52)"
    have u: "0 < ?u" by simp
    have "x / ?u \<le> y / ?u" using assms(2) u by (simp add: divide_right_mono)
    then have "round_half_even (x / ?u) \<le> round_half_even (y / ?u)"
      by (rule round_half_even_mono)
    then have "(of_int (round_half_even (x / ?u)) :: real) * ?u \<le> of_int (round_half_even (y / ?u)) * ?u"
      using u by (simp only: mult_le_cancel_right_pos of_int_le_iff)
    then show ?thesis using assms(1) y True by (simp add: fl_def Let_def)
  next
    case False
    with le have "of_int ?ex + (1::real) \<le> of_int ?ey" by linarith
    then have "(2::real) powr (of_int ?ex + 1) \<le> 2 powr of_int ?ey"
      by (simp only: powr_le_cancel_iff [of 2] one_less_numeral_iff semiring_norm)
    moreover have "fl x \<le> 2 powr (of_int ?ex + 1)" using hx by (rule fl_bounds)
    moreover have "2 powr of_int ?ey \<le> fl y" using hy by (rule fl_bounds)
    ultimately show ?thesis by linarith
  qed
qed

lemma fl_mono_nonneg: "0 \<le> x \<Longrightarrow> x \<le> y \<Longrightarrow> fl x \<le> fl y"
  using fl_mono_pos [of x y] fl_nonneg [of y] by (cases "x = 0") auto

lemma fl_idem_nonneg:
  assumes "0 \<le> x"
  shows "fl (fl x) = fl x"
proof (cases "x = 0")
  case True
  then show ?thesis by simp
next
  case False
  with assms have x: "0 < x" by simp
  let ?e = "\<lfloor>log 2 \<bar>x\<bar>\<rfloor>"
  let ?u = "(2::real) powr (of_int ?e - 52)"
  let ?K = "round_half_even (x / ?u)"
  have hx: "2 powr of_int ?e \<le> x" "x < 2 powr (of_int ?e + 1)"
    using exponent_bounds [of x] x by simp_all
  have f: "fl x = of_int ?K * ?u" using x by (simp add: fl_def Let_def)
  have lo: "2 powr of_int ?e \<le> fl x" and hi: "fl x \<le> 2 powr (of_int ?e + 1)"
    using hx by (rule fl_bounds)+
  have pos: "0 < fl x" using lo powr_gt_zero [of 2 "of_int ?e"] by linarith
  show ?thesis
  proof (cases "fl x < 2 powr (of_int ?e + 1)")
    case True
    have e': "\<lfloor>log 2 \<bar>fl x\<bar>\<rfloor> = ?e"
      using lo True pos by (intro exponent_unique) simp_all
    have "fl x / ?u = of_int ?K" by (simp add: f)
    then have "fl x / 2 powr (of_int \<lfloor>log 2 \<bar>fl x\<bar>\<rfloor> - 52) = of_int ?K"
      by (simp only: e')
    then show ?thesis using pos by (intro fl_exact) simp_all
  next
    case False
    with hi have eq: "fl x = 2 powr (of_int ?e + 1)" by simp
    have "2 powr of_int (?e + 1) \<le> \<bar>fl x\<bar>" "\<bar>fl x\<bar> < 2 powr (of_int (?e + 1) + 1)"
      by (simp_all add: eq)
    then have e': "\<lfloor>log 2 \<bar>fl x\<bar>\<rfloor> = ?e + 1" by (rule exponent_unique)
    have "fl x / 2 powr (of_int (?e + 1) - 52)
        = 2 powr (of_int ?e + 1) / 2 powr (of_int ?e + 1 - 52)"
      by (simp add: eq)
    also have "\<dots> = 2 powr ((of_int ?e + 1) - (of_int ?e + 1 - 52))"
      by (rule powr_diff [symmetric])
    also have "\<dots> = 2 powr 52" by simp
    also have "\<dots> = of_int (2 ^ 52)" by (simp add: powr_numeral)
    finally have "fl x / 2 powr (of_int \<lfloor>log 2 \<bar>fl x\<bar>\<rfloor> - 52) = of_int (2 ^ 52)"
      by (simp only: e')
    then show ?thesis using pos by (intro fl_exact) simp_all
  qed
qed

lemma fl_eval:
  fixes k :: nat
  assumes "2 ^ 52 \<le> \<bar>x\<bar> * 2 ^ k" and "\<bar>x\<bar> * 2 ^ k < 2 ^ 53"
  shows "fl x = of_int (round_half_even (x * 2 ^ k)) / 2 ^ k"
proof -
  let ?e = "52 - int k"
  have p: "(2::real) powr (of_int ?e - 52) = 1 / 2 ^ k"
    by (simp add: powr_minus powr_realpow field_simps)
  have a: "(2::real) powr of_int ?e = 2 ^ 52 / 2 ^ k"
    using ulp_scale(1) [of ?e] by (simp only: p) simp
  have b: "(2::real) powr (of_int ?e + 1) = 2 ^ 53 / 2 ^ k"
    using ulp_scale(2) [of ?e] by (simp only: p) simp
  have "2 powr of_int ?e \<le> \<bar>x\<bar>" using assms(1) by (simp only: a) (simp add: field_simps)
  moreover have "\<bar>x\<bar> < 2 powr (of_int ?e + 1)" using assms(2) by (simp only: b) (simp add: field_simps)
  ultimately have "fl x = of_int (round_half_even (x / 2 powr (of_int ?e - 52))) * 2 powr (of_int ?e - 52)"
    by (rule fl_eq)
  then show ?thesis by (simp only: p) simp
qed

lemma fl_int:
  assumes "\<bar>k\<bar> \<le> 2 ^ 53"
  shows "fl (of_int k) = of_int k"
proof (cases "k = 0")
  case True
  then show ?thesis by simp
next
  case False
  let ?x = "of_int k :: real"
  show ?thesis
  proof (cases "\<bar>k\<bar> = 2 ^ 53")
    case True
    have ax: "\<bar>?x\<bar> = 2 ^ 53"
      using True by (metis of_int_abs of_int_numeral of_int_power)
    have "2 powr of_int 53 \<le> \<bar>?x\<bar>" "\<bar>?x\<bar> < 2 powr (of_int 53 + 1)"
      by (simp_all add: ax powr_numeral)
    then have e: "\<lfloor>log 2 \<bar>?x\<bar>\<rfloor> = 53" by (rule exponent_unique)
    have "?x / 2 powr (of_int \<lfloor>log 2 \<bar>?x\<bar>\<rfloor> - 52) = ?x / 2" by (simp add: e)
    moreover have "even k" using True by (metis abs_numeral dvd_abs_iff even_numeral even_power zero_less_numeral)
    then obtain j where "k = 2 * j" by (elim evenE)
    ultimately have "?x / 2 powr (of_int \<lfloor>log 2 \<bar>?x\<bar>\<rfloor> - 52) = of_int j" by simp
    then show ?thesis using False by (intro fl_exact) simp_all
  next
    case lt: False
    with assms have "\<bar>k\<bar> < 2 ^ 53" by simp
    then have ax: "\<bar>?x\<bar> < 2 ^ 53"
      by (metis of_int_abs of_int_less_iff of_int_numeral of_int_power)
    let ?e = "\<lfloor>log 2 \<bar>?x\<bar>\<rfloor>"
    have x0: "?x \<noteq> 0" using False by simp
    have "2 powr of_int ?e \<le> \<bar>?x\<bar>" using exponent_bounds(1) [OF x0] .
    with ax have lt53: "(2::real) powr of_int ?e < 2 powr 53" by (simp add: powr_numeral)
    have "of_int ?e < (53::real)" by (rule powr_less_cancel [OF lt53]) simp
    then have e52: "?e \<le> 52" by linarith
    define n where "n = nat (52 - ?e)"
    have "(52::real) - of_int ?e = real n" using e52 by (simp add: n_def)
    then have "(2::real) powr (52 - of_int ?e) = 2 ^ n" by (simp add: powr_realpow)
    moreover have "?x / 2 powr (of_int ?e - 52) = ?x * 2 powr (52 - of_int ?e)"
      by (simp add: powr_diff field_simps)
    ultimately have "?x / 2 powr (of_int ?e - 52) = of_int (k * 2 ^ n)" by simp
    then show ?thesis using x0 by (intro fl_exact)
  qed
qed

lemma fl_numeral: "(numeral w :: int) \<le> 2 ^ 53 \<Longrightarrow> fl (numeral w) = numeral w"
  using fl_int [of "numeral w"] by simp

lemma fl_neg_numeral: "(numeral w :: int) \<le> 2 ^ 53 \<Longrightarrow> fl (- numeral w) = - numeral w"
  using fl_int [of "- numeral w"] by simp

lemma fl_one [simp]: "fl 1 = 1"
  using fl_int [of 1] by simp

section \<open>Sums of doubles\<close>

lemma fsum_snoc: "fsum (vs @ [v]) = fadd (fsum vs) v"
  by (simp add: fsum_def)

lemma fsum_nonneg: "\<forall>v\<in>set vs. 0 \<le> v \<Longrightarrow> 0 \<le> fsum vs"
proof (induction vs rule: rev_induct)
  case Nil
  then show ?case by (simp add: fsum_def)
next
  case (snoc v vs)
  then have "0 \<le> fsum vs + v" by simp
  then show ?case by (simp add: fsum_snoc fadd_def fl_nonneg)
qed

lemma fsum_double: "\<forall>v\<in>set vs. 0 \<le> v \<Longrightarrow> fl (fsum vs) = fsum vs"
proof (cases vs rule: rev_cases)
  case Nil
  then show ?thesis by (simp add: fsum_def)
next
  case (snoc ws w)
  assume nn: "\<forall>v\<in>set vs. 0 \<le> v"
  with snoc have "0 \<le> fsum ws" "0 \<le> w" by (simp_all add: fsum_nonneg)
  then have "0 \<le> fsum ws + w" by simp
  then show ?thesis by (simp add: snoc fsum_snoc fadd_def fl_idem_nonneg)
qed

section \<open>Group-by\<close>

lemma groupby_keys [simp]: "map fst (groupby_sum rows) = sort (remdups (map fst rows))"
  by (simp add: groupby_sum_def comp_def)

lemma groupby_values:
  assumes "(k, v) \<in> set (groupby_sum rows)"
  shows "v = sum_for k rows"
  using assms by (auto simp: groupby_sum_def)

lemma sum_for_nonneg: "\<forall>r\<in>set rows. 0 \<le> snd r \<Longrightarrow> 0 \<le> sum_for k rows"
  by (auto simp: sum_for_def intro!: fsum_nonneg)

lemma sum_for_double: "\<forall>r\<in>set rows. 0 \<le> snd r \<Longrightarrow> fl (sum_for k rows) = sum_for k rows"
  by (auto simp: sum_for_def intro!: fsum_double)

lemma groupby_sum_nonneg:
  "\<forall>r\<in>set rows. 0 \<le> snd r \<Longrightarrow> \<forall>r\<in>set (groupby_sum rows). 0 \<le> snd r \<and> fl (snd r) = snd r"
  by (auto simp: groupby_sum_def sum_for_nonneg sum_for_double)

lemma bridged_subset: "(n, r) \<in> set (bridged b rows) \<Longrightarrow> r \<in> set rows"
  by (auto simp: bridged_def merge_bridge_def split: option.splits)

lemma or_zero_nonneg: "(\<forall>v. x = Some v \<longrightarrow> 0 \<le> v) \<Longrightarrow> 0 \<le> or_zero x"
  by (cases x) (simp_all add: or_zero_def)

lemma eval_agg_nonneg:
  assumes "nonneg_services rows" and "set filtered \<subseteq> set rows"
  shows "\<forall>r\<in>set (eval_agg b filtered). 0 \<le> snd r"
proof -
  have "\<forall>r\<in>set (map (\<lambda>(n, r). ((n, HCPCS_Cd r), or_zero (Tot_Srvcs r))) (bridged b filtered)).
          0 \<le> snd r"
  proof clarsimp
    fix n r assume "(n, r) \<in> set (bridged b filtered)"
    then have "r \<in> set rows" using bridged_subset assms(2) by blast
    then show "0 \<le> or_zero (Tot_Srvcs r)"
      using assms(1) by (intro or_zero_nonneg) (simp add: nonneg_services_def)
  qed
  then show ?thesis unfolding eval_agg_def using groupby_sum_nonneg by blast
qed

lemma proc_agg_nonneg:
  assumes "nonneg_services rows" and "set filtered \<subseteq> set rows"
  shows "\<forall>r\<in>set (proc_agg b filtered). 0 \<le> snd r"
proof -
  have "\<forall>r\<in>set (map (\<lambda>(n, r). (n, or_zero (Tot_Srvcs r))) (bridged b filtered)). 0 \<le> snd r"
  proof clarsimp
    fix n r assume "(n, r) \<in> set (bridged b filtered)"
    then have "r \<in> set rows" using bridged_subset assms(2) by blast
    then show "0 \<le> or_zero (Tot_Srvcs r)"
      using assms(1) by (intro or_zero_nonneg) (simp add: nonneg_services_def)
  qed
  then show ?thesis unfolding proc_agg_def using groupby_sum_nonneg by blast
qed

section \<open>The chunk loop\<close>

lemma process_chunks_eq:
  "process_chunks b cs (oc, pc) =
     (oc @ map (eval_agg b) (filter (\<lambda>f. f \<noteq> []) (map (filter (\<lambda>r. HCPCS_Cd r \<in> ALL_TARGET_CODES)) cs)),
      pc @ map (proc_agg b) (filter (\<lambda>f. f \<noteq> []) (map (filter (\<lambda>r. is_procedure_code (HCPCS_Cd r))) cs)))"
  by (induction cs arbitrary: oc pc) (simp_all add: Let_def)

lemma org_chunks_nonneg:
  assumes "nonneg_services (concat cs)"
  shows "\<forall>r\<in>set (concat (map (eval_agg b)
            (filter (\<lambda>f. f \<noteq> []) (map (filter (\<lambda>r. HCPCS_Cd r \<in> ALL_TARGET_CODES)) cs)))). 0 \<le> snd r"
proof clarsimp
  fix k v c
  assume c: "c \<in> set cs" and m: "(k, v) \<in> set (eval_agg b (filter (\<lambda>r. HCPCS_Cd r \<in> ALL_TARGET_CODES) c))"
  have "set (filter (\<lambda>r. HCPCS_Cd r \<in> ALL_TARGET_CODES) c) \<subseteq> set (concat cs)" using c by auto
  from eval_agg_nonneg [OF assms this, of b] m show "0 \<le> v" by force
qed

lemma procedure_chunks_nonneg:
  assumes "nonneg_services (concat cs)"
  shows "\<forall>r\<in>set (concat (map (proc_agg b)
            (filter (\<lambda>f. f \<noteq> []) (map (filter (\<lambda>r. is_procedure_code (HCPCS_Cd r))) cs)))). 0 \<le> snd r"
proof clarsimp
  fix k v c
  assume c: "c \<in> set cs" and m: "(k, v) \<in> set (proc_agg b (filter (\<lambda>r. is_procedure_code (HCPCS_Cd r)) c))"
  have "set (filter (\<lambda>r. is_procedure_code (HCPCS_Cd r)) c) \<subseteq> set (concat cs)" using c by auto
  from proc_agg_nonneg [OF assms this, of b] m show "0 \<le> v" by force
qed

section \<open>Invariants of the finalized rows\<close>

lemma pivot_cell_nonneg:
  "\<forall>r\<in>set fa. 0 \<le> snd r \<Longrightarrow> 0 \<le> pivot_cell fa n code"
  by (auto simp: pivot_cell_def split: option.splits dest!: map_of_SomeD)

lemma count_level_3_nonneg:
  assumes "\<forall>r\<in>set fa. 0 \<le> snd r"
  shows "0 \<le> count_level_3 fa n" and "fl (count_level_3 fa n) = count_level_3 fa n"
  using assms by (auto simp: count_level_3_def pivot_cell_nonneg intro!: fsum_nonneg fsum_double)

lemma count_level_4_5_nonneg:
  assumes "\<forall>r\<in>set fa. 0 \<le> snd r"
  shows "0 \<le> count_level_4_5 fa n" and "fl (count_level_4_5 fa n) = count_level_4_5 fa n"
  using assms by (auto simp: count_level_4_5_def pivot_cell_nonneg intro!: fsum_nonneg fsum_double)

text \<open>Adding a non-negative double to a non-negative double does not give less.\<close>

lemma fadd_ge_right:
  assumes "0 \<le> a" "0 \<le> b" "fl b = b"
  shows "b \<le> fadd a b"
proof -
  have "fl b \<le> fl (a + b)" using assms by (intro fl_mono_nonneg) simp_all
  then show ?thesis by (simp add: fadd_def assms(3))
qed

lemma fadd_ge_left:
  assumes "0 \<le> a" "0 \<le> b" "fl a = a"
  shows "a \<le> fadd a b"
  using fadd_ge_right [of b a] assms by (simp add: fadd_def add.commute)

lemma fdiv_unit:
  assumes "0 \<le> a" "a \<le> b" "0 < b"
  shows "0 \<le> fdiv a b \<and> fdiv a b \<le> 1"
proof -
  have q: "0 \<le> a / b" "a / b \<le> 1" using assms by simp_all
  have "fl (a / b) \<le> fl 1" using q by (intro fl_mono_nonneg)
  then show ?thesis using q(1) by (simp add: fdiv_def fl_nonneg)
qed

lemma metrics_row_invariants:
  assumes "10 \<le> total_eval_of fa n"
  shows "10 \<le> agg_total_eval_codes (metrics_row fa pf n)"
    and "fadd (agg_count_level_3 (metrics_row fa pf n)) (agg_count_level_4_5 (metrics_row fa pf n))
           = agg_total_eval_codes (metrics_row fa pf n)"
    and "agg_undercoding_ratio (metrics_row fa pf n)
           = fdiv (agg_count_level_4_5 (metrics_row fa pf n)) (agg_total_eval_codes (metrics_row fa pf n))"
  using assms by (simp_all add: metrics_row_def Let_def total_eval_of_def)

lemma metrics_row_ratios:
  assumes "10 \<le> total_eval_of fa n"
    and "\<forall>r\<in>set fa. 0 \<le> snd r"
    and "\<forall>p. pf = Some p \<longrightarrow> (\<forall>r\<in>set p. 0 \<le> snd r \<and> fl (snd r) = snd r)"
  shows "0 \<le> agg_undercoding_ratio (metrics_row fa pf n)
     \<and> agg_undercoding_ratio (metrics_row fa pf n) \<le> 1
     \<and> 0 \<le> agg_total_procedure_codes (metrics_row fa pf n)
     \<and> agg_procedure_ratio (metrics_row fa pf n)
         = Some (fdiv (agg_total_procedure_codes (metrics_row fa pf n))
                      (fadd (agg_total_procedure_codes (metrics_row fa pf n))
                            (agg_total_eval_codes (metrics_row fa pf n))))
     \<and> 0 \<le> fdiv (agg_total_procedure_codes (metrics_row fa pf n))
                 (fadd (agg_total_procedure_codes (metrics_row fa pf n))
                       (agg_total_eval_codes (metrics_row fa pf n)))
     \<and> fdiv (agg_total_procedure_codes (metrics_row fa pf n))
             (fadd (agg_total_procedure_codes (metrics_row fa pf n))
                   (agg_total_eval_codes (metrics_row fa pf n))) \<le> 1"
proof -
  let ?c3 = "count_level_3 fa n" and ?c45 = "count_level_4_5 fa n" and ?te = "total_eval_of fa n"
  let ?tp = "case pf of None \<Rightarrow> 0 | Some p \<Rightarrow> (case map_of p n of None \<Rightarrow> 0 | Some v \<Rightarrow> v)"
  have c3: "0 \<le> ?c3" using assms(2) by (rule count_level_3_nonneg)
  have c45: "0 \<le> ?c45" "fl ?c45 = ?c45"
    using assms(2) by (rule count_level_4_5_nonneg)+
  have te: "?te = fadd ?c3 ?c45" by (simp add: total_eval_of_def)
  have te10: "10 \<le> ?te" using assms(1) .
  have le: "?c45 \<le> ?te" unfolding te using c3 c45 by (rule fadd_ge_right)
  have ur: "0 \<le> fdiv ?c45 ?te \<and> fdiv ?c45 ?te \<le> 1"
    using c45(1) le te10 by (intro fdiv_unit) simp_all
  have tp: "0 \<le> ?tp \<and> fl ?tp = ?tp"
    using assms(3) by (fastforce split: option.splits dest!: map_of_SomeD)
  have ten: "fl 10 = 10" by (simp add: fl_numeral)
  have "fl 10 \<le> fl (?tp + ?te)" using tp te10 by (intro fl_mono_nonneg) simp_all
  then have den10: "10 \<le> fadd ?tp ?te" by (simp add: fadd_def ten)
  have tple: "?tp \<le> fadd ?tp ?te" using tp te10 by (intro fadd_ge_left) simp_all
  have pr: "0 \<le> fdiv ?tp (fadd ?tp ?te) \<and> fdiv ?tp (fadd ?tp ?te) \<le> 1"
    using tp tple den10 by (intro fdiv_unit) simp_all
  have sel: "agg_undercoding_ratio (metrics_row fa pf n) = fdiv ?c45 ?te"
    "agg_total_eval_codes (metrics_row fa pf n) = ?te"
    "agg_total_procedure_codes (metrics_row fa pf n) = ?tp"
    by (simp_all add: metrics_row_def Let_def)
  have ratio: "agg_procedure_ratio (metrics_row fa pf n) = Some (fdiv ?tp (fadd ?tp ?te))"
  proof (cases pf)
    case None
    then show ?thesis by (simp add: metrics_row_def Let_def fdiv_def)
  next
    case (Some p)
    have "fadd ?tp ?te \<noteq> 0" using den10 by linarith
    then show ?thesis unfolding Some by (simp add: metrics_row_def Let_def)
  qed
  show ?thesis unfolding sel ratio using ur tp pr by blast
qed

lemma concat_chunks_of: "0 < n \<Longrightarrow> concat (chunks_of n xs) = xs"
proof (induction n xs rule: chunks_of.induct)
  case (1 n xs)
  show ?case
  proof (cases "xs = []")
    case True
    then show ?thesis by (subst chunks_of.simps) simp
  next
    case False
    with 1 have "concat (chunks_of n (drop n xs)) = drop n xs" by simp
    with False 1(2) show ?thesis by (subst chunks_of.simps) simp
  qed
qed

lemma process_chunked_rows:
  assumes "process_chunked b cs = Some out" and "m \<in> set out"
  obtains n where
    "m = metrics_row
           (groupby_sum (concat (map (eval_agg b)
              (filter (\<lambda>f. f \<noteq> []) (map (filter (\<lambda>r. HCPCS_Cd r \<in> ALL_TARGET_CODES)) cs)))))
           (if map (proc_agg b)
                 (filter (\<lambda>f. f \<noteq> []) (map (filter (\<lambda>r. is_procedure_code (HCPCS_Cd r))) cs)) \<noteq> []
            then Some (groupby_sum (concat (map (proc_agg b)
                   (filter (\<lambda>f. f \<noteq> []) (map (filter (\<lambda>r. is_procedure_code (HCPCS_Cd r))) cs)))))
            else None) n"
    and "10 \<le> total_eval_of
           (groupby_sum (concat (map (eval_agg b)
              (filter (\<lambda>f. f \<noteq> []) (map (filter (\<lambda>r. HCPCS_Cd r \<in> ALL_TARGET_CODES)) cs))))) n"
  using assms
  by (auto simp: process_chunked_def process_chunks_eq finalize_def Let_def split: if_splits)

lemma process_chunked_invariants:
  assumes "process_chunked b cs = Some out" and "m \<in> set out"
  shows "10 \<le> agg_total_eval_codes m
     \<and> fadd (agg_count_level_3 m) (agg_count_level_4_5 m) = agg_total_eval_codes m
     \<and> agg_undercoding_ratio m = fdiv (agg_count_level_4_5 m) (agg_total_eval_codes m)
     \<and> (nonneg_services (concat cs) \<longrightarrow>
          0 \<le> agg_undercoding_ratio m \<and> agg_undercoding_ratio m \<le> 1
          \<and> 0 \<le> agg_total_procedure_codes m
          \<and> agg_procedure_ratio m
              = Some (fdiv (agg_total_procedure_codes m)
                           (fadd (agg_total_procedure_codes m) (agg_total_eval_codes m)))
          \<and> 0 \<le> fdiv (agg_total_procedure_codes m)
                      (fadd (agg_total_procedure_codes m) (agg_total_eval_codes m))
          \<and> fdiv (agg_total_procedure_codes m)
                  (fadd (agg_total_procedure_codes m) (agg_total_eval_codes m)) \<le> 1)"
proof -
  let ?OC = "map (eval_agg b)
              (filter (\<lambda>f. f \<noteq> []) (map (filter (\<lambda>r. HCPCS_Cd r \<in> ALL_TARGET_CODES)) cs))"
  let ?PC = "map (proc_agg b)
              (filter (\<lambda>f. f \<noteq> []) (map (filter (\<lambda>r. is_procedure_code (HCPCS_Cd r))) cs))"
  let ?fa = "groupby_sum (concat ?OC)"
  let ?pf = "if ?PC \<noteq> [] then Some (groupby_sum (concat ?PC)) else None"
  from assms obtain n where m: "m = metrics_row ?fa ?pf n" and ge: "10 \<le> total_eval_of ?fa n"
    by (rule process_chunked_rows)
  have cond: "0 \<le> agg_undercoding_ratio m \<and> agg_undercoding_ratio m \<le> 1
          \<and> 0 \<le> agg_total_procedure_codes m
          \<and> agg_procedure_ratio m
              = Some (fdiv (agg_total_procedure_codes m)
                           (fadd (agg_total_procedure_codes m) (agg_total_eval_codes m)))
          \<and> 0 \<le> fdiv (agg_total_procedure_codes m)
                      (fadd (agg_total_procedure_codes m) (agg_total_eval_codes m))
          \<and> fdiv (agg_total_procedure_codes m)
                  (fadd (agg_total_procedure_codes m) (agg_total_eval_codes m)) \<le> 1"
    if nn: "nonneg_services (concat cs)"
  proof -
    have "\<forall>r\<in>set (concat ?OC). 0 \<le> snd r" using nn by (rule org_chunks_nonneg)
    then have fa: "\<forall>r\<in>set ?fa. 0 \<le> snd r" using groupby_sum_nonneg by blast
    have "\<forall>r\<in>set (concat ?PC). 0 \<le> snd r" using nn by (rule procedure_chunks_nonneg)
    then have "\<forall>r\<in>set (groupby_sum (concat ?PC)). 0 \<le> snd r \<and> fl (snd r) = snd r"
      by (rule groupby_sum_nonneg)
    then have pa: "\<forall>p. ?pf = Some p \<longrightarrow> (\<forall>r\<in>set p. 0 \<le> snd r \<and> fl (snd r) = snd r)"
      by simp
    show ?thesis unfolding m by (rule metrics_row_ratios [OF ge fa pa])
  qed
  show ?thesis using cond metrics_row_invariants [OF ge, of ?pf] by (simp add: m)
qed

section \<open>Sums that do not round\<close>

lemma whole_iff: "whole v \<longleftrightarrow> (\<exists>n::nat. v = real n)"
proof
  assume "whole v"
  then have nn: "0 \<le> v" and fv: "of_int \<lfloor>v\<rfloor> = v" by (simp_all only: whole_def)
  from nn have "0 \<le> \<lfloor>v\<rfloor>" by (simp only: zero_le_floor)
  then have "real (nat \<lfloor>v\<rfloor>) = of_int \<lfloor>v\<rfloor>" by (simp only: of_nat_nat)
  then have "v = real (nat \<lfloor>v\<rfloor>)" by (simp only: fv)
  then show "\<exists>n::nat. v = real n" ..
next
  assume "\<exists>n::nat. v = real n"
  then obtain n :: nat where "v = real n" ..
  then show "whole v" by (simp add: whole_def)
qed

lemma whole_add: "whole a \<Longrightarrow> whole b \<Longrightarrow> whole (a + b)"
proof -
  assume "whole a" and "whole b"
  then obtain i j :: nat where "a = real i" "b = real j" by (auto simp: whole_iff)
  then have "a + b = real (i + j)" by simp
  then show ?thesis unfolding whole_iff ..
qed

lemma whole_zero [simp]: "whole 0"
  by (simp add: whole_def)

lemma whole_nonneg: "whole v \<Longrightarrow> 0 \<le> v"
  by (simp only: whole_def)

lemma whole_sum_list: "\<forall>v\<in>set vs. whole v \<Longrightarrow> whole (sum_list vs)"
  by (induction vs) (simp_all add: whole_add)

lemma fl_whole:
  assumes "whole v" "v \<le> 2 ^ 53"
  shows "fl v = v"
proof -
  from assms(1) obtain n :: nat where v: "v = real n" by (auto simp: whole_iff)
  with assms(2) have "real n \<le> 2 ^ 53" by simp
  then have "n \<le> 2 ^ 53" by (metis of_nat_le_iff of_nat_numeral of_nat_power)
  then have "\<bar>int n\<bar> \<le> 2 ^ 53" by simp
  then have "fl (of_int (int n)) = of_int (int n)" by (rule fl_int)
  then show ?thesis by (simp add: v)
qed

lemma fsum_exact:
  assumes "\<forall>v\<in>set vs. whole v" "sum_list vs \<le> 2 ^ 53"
  shows "fsum vs = sum_list vs"
  using assms
proof (induction vs rule: rev_induct)
  case Nil
  then show ?case by (simp add: fsum_def)
next
  case (snoc v vs)
  have v: "whole v" and vs: "\<forall>w\<in>set vs. whole w" using snoc.prems(1) by simp_all
  have "0 \<le> v" using v by (auto simp: whole_iff)
  then have "sum_list vs \<le> 2 ^ 53" using snoc.prems(2) by simp
  then have ih: "fsum vs = sum_list vs" using snoc.IH vs by simp
  have "whole (sum_list vs + v)" using whole_sum_list [OF vs] v by (rule whole_add)
  then have "fl (sum_list vs + v) = sum_list vs + v"
    using snoc.prems(2) by (intro fl_whole) simp_all
  then show ?case by (simp add: fsum_snoc fadd_def ih)
qed

section \<open>Group-by with exact sums\<close>

lemma groupby_exact_keys [simp]: "map fst (groupby_exact rows) = sort (remdups (map fst rows))"
  by (simp add: groupby_exact_def comp_def)

lemma groupby_exact_keys_set [simp]: "fst ` set (groupby_exact rows) = fst ` set rows"
proof -
  have "set (map fst (groupby_exact rows)) = set (map fst rows)"
    by (simp only: groupby_exact_keys) simp
  then show ?thesis by (simp only: set_map)
qed

lemma exact_sum_for_append [simp]:
  "exact_sum_for k (xs @ ys) = exact_sum_for k xs + exact_sum_for k ys"
  by (simp add: exact_sum_for_def)

lemma exact_sum_for_concat: "exact_sum_for k (concat xss) = sum_list (map (exact_sum_for k) xss)"
  by (induction xss) (simp_all add: exact_sum_for_def)

lemma exact_sum_for_notin: "k \<notin> fst ` set rows \<Longrightarrow> exact_sum_for k rows = 0"
proof -
  assume "k \<notin> fst ` set rows"
  then have "filter (\<lambda>r. fst r = k) rows = []" by (auto simp: filter_empty_conv)
  then show ?thesis by (simp add: exact_sum_for_def)
qed

lemma exact_sum_for_tabulate:
  "distinct ks \<Longrightarrow> exact_sum_for k (map (\<lambda>j. (j, f j)) ks) = (if k \<in> set ks then f k else 0)"
proof (induction ks)
  case Nil
  then show ?case by (simp add: exact_sum_for_def)
next
  case (Cons a ks)
  then show ?case by (auto simp: exact_sum_for_def)
qed

lemma exact_sum_for_groupby [simp]: "exact_sum_for k (groupby_exact rows) = exact_sum_for k rows"
proof -
  have "distinct (sort (remdups (map fst rows)))" by simp
  then have "exact_sum_for k (groupby_exact rows)
      = (if k \<in> set (sort (remdups (map fst rows))) then exact_sum_for k rows else 0)"
    unfolding groupby_exact_def by (rule exact_sum_for_tabulate)
  then show ?thesis using exact_sum_for_notin [of k rows] by auto
qed

lemma sort_remdups_cong: "set xs = set ys \<Longrightarrow> sort (remdups xs) = sort (remdups ys)"
  by (metis sorted_list_of_set_sort_remdups)

lemma groupby_exact_cong:
  assumes "fst ` set xs = fst ` set ys" and "\<And>k. exact_sum_for k xs = exact_sum_for k ys"
  shows "groupby_exact xs = groupby_exact ys"
proof -
  have "sort (remdups (map fst xs)) = sort (remdups (map fst ys))"
    by (rule sort_remdups_cong) (use assms(1) in simp)
  then show ?thesis using assms(2) by (simp add: groupby_exact_def)
qed

lemma groupby_exact_concat_groupby:
  "groupby_exact (concat (map groupby_exact xss)) = groupby_exact (concat xss)"
proof (rule groupby_exact_cong)
  show "fst ` set (concat (map groupby_exact xss)) = fst ` set (concat xss)"
    by (simp add: image_UN)
  show "exact_sum_for k (concat (map groupby_exact xss)) = exact_sum_for k (concat xss)" for k
    by (simp add: exact_sum_for_concat comp_def)
qed

lemma groupby_sum_exact:
  assumes "\<forall>r\<in>set rows. whole (snd r)" and "\<And>k. exact_sum_for k rows \<le> 2 ^ 53"
  shows "groupby_sum rows = groupby_exact rows"
proof -
  have "sum_for k rows = exact_sum_for k rows" for k
    unfolding sum_for_def exact_sum_for_def
    using assms(1) assms(2) [of k] by (intro fsum_exact) (auto simp: exact_sum_for_def)
  then show ?thesis by (simp add: groupby_sum_def groupby_exact_def)
qed

lemma exact_sum_for_whole: "\<forall>r\<in>set rows. whole (snd r) \<Longrightarrow> whole (exact_sum_for k rows)"
  unfolding exact_sum_for_def by (rule whole_sum_list) auto

lemma groupby_exact_whole:
  "\<forall>r\<in>set rows. whole (snd r) \<Longrightarrow> \<forall>r\<in>set (groupby_exact rows). whole (snd r)"
  by (auto simp: groupby_exact_def exact_sum_for_whole)

lemma sum_list_filter_le:
  fixes f :: "'a \<Rightarrow> real"
  assumes "\<forall>x\<in>set xs. 0 \<le> f x"
  shows "sum_list (map f (filter P xs)) \<le> sum_list (map f xs)"
  using assms by (induction xs) (auto intro: add_increasing)

lemma exact_sum_for_le_total:
  assumes "\<forall>r\<in>set rows. 0 \<le> snd r"
  shows "exact_sum_for k rows \<le> sum_list (map snd rows)"
  unfolding exact_sum_for_def using assms by (rule sum_list_filter_le)

section \<open>The two stages of the aggregation when no addition rounds\<close>

lemma concat_filter_nonempty: "concat (filter (\<lambda>f. f \<noteq> []) xss) = concat xss"
  by (induction xss) simp_all

lemma filter_nonempty_Nil: "filter (\<lambda>f. f \<noteq> []) xss = [] \<longleftrightarrow> concat xss = []"
  by (induction xss) simp_all

lemma filter_concat_chunks: "concat (filter (\<lambda>f. f \<noteq> []) (map (filter P) cs)) = filter P (concat cs)"
  by (simp add: concat_filter_nonempty filter_concat)

lemma bridged_append: "bridged b (xs @ ys) = bridged b xs @ bridged b ys"
  by (simp add: bridged_def merge_bridge_def split: option.splits)

lemma bridged_Nil [simp]: "bridged b [] = []"
  by (simp add: bridged_def merge_bridge_def split: option.splits)

lemma bridged_concat: "bridged b (concat xss) = concat (map (bridged b) xss)"
  by (induction xss) (simp_all add: bridged_append)

lemma weight_append [simp]: "weight (ps @ qs) = weight ps + weight qs"
  by (simp add: weight_def)

lemma weight_nonneg:
  assumes "\<forall>r\<in>set rows. \<forall>v. Tot_Srvcs r = Some v \<longrightarrow> whole v" and "set xs \<subseteq> set rows"
  shows "0 \<le> weight (bridged b xs)"
proof -
  have "0 \<le> or_zero (Tot_Srvcs (snd p))" if "p \<in> set (bridged b xs)" for p
  proof -
    from that have "snd p \<in> set rows" using bridged_subset [of "fst p" "snd p" b xs] assms(2) by auto
    then show ?thesis using assms(1) by (intro or_zero_nonneg) (auto dest: whole_nonneg)
  qed
  then show ?thesis unfolding weight_def by (intro sum_list_nonneg) auto
qed

lemma weight_filter_le:
  assumes "\<forall>r\<in>set rows. \<forall>v. Tot_Srvcs r = Some v \<longrightarrow> whole v" and "set xs \<subseteq> set rows"
  shows "weight (bridged b (filter P xs)) \<le> weight (bridged b xs)"
  using assms(2)
proof (induction xs)
  case Nil
  then show ?case by simp
next
  case (Cons x xs)
  have split: "weight (bridged b (x # ys)) = weight (bridged b [x]) + weight (bridged b ys)" for ys
    using bridged_append [of b "[x]" ys] weight_append [of "bridged b [x]" "bridged b ys"]
    by simp
  have x: "0 \<le> weight (bridged b [x])"
    using Cons.prems by (intro weight_nonneg [OF assms(1)]) simp
  have ih: "weight (bridged b (filter P xs)) \<le> weight (bridged b xs)"
    using Cons by simp
  show ?case
  proof (cases "P x")
    case True
    then have "weight (bridged b (filter P (x # xs)))
        = weight (bridged b [x]) + weight (bridged b (filter P xs))"
      using split [of "filter P xs"] by simp
    then show ?thesis using ih split [of xs] by linarith
  next
    case False
    then have "weight (bridged b (filter P (x # xs))) = weight (bridged b (filter P xs))"
      by simp
    then show ?thesis using ih x split [of xs] by linarith
  qed
qed

lemma weight_chunk_le:
  assumes "\<forall>r\<in>set (concat cs). \<forall>v. Tot_Srvcs r = Some v \<longrightarrow> whole v" and "c \<in> set cs"
  shows "weight (bridged b c) \<le> weight (bridged b (concat cs))"
  using assms
proof (induction cs)
  case Nil
  then show ?case by simp
next
  case (Cons d cs)
  have w: "\<forall>r\<in>set (concat (d # cs)). \<forall>v. Tot_Srvcs r = Some v \<longrightarrow> whole v" using Cons.prems(1) .
  have d: "0 \<le> weight (bridged b d)" by (rule weight_nonneg [OF w]) simp
  have r: "0 \<le> weight (bridged b (concat cs))" by (rule weight_nonneg [OF w]) auto
  show ?case
  proof (cases "c = d")
    case True
    then show ?thesis using r by (simp add: bridged_append)
  next
    case False
    with Cons.prems(2) have "c \<in> set cs" by simp
    moreover have "\<forall>r\<in>set (concat cs). \<forall>v. Tot_Srvcs r = Some v \<longrightarrow> whole v" using w by auto
    ultimately have "weight (bridged b c) \<le> weight (bridged b (concat cs))" using Cons.IH by blast
    then show ?thesis using d by (simp add: bridged_append)
  qed
qed

lemma keyed_whole:
  fixes kv :: "int \<times> service_record \<Rightarrow> 'k \<times> real"
  assumes "\<And>p. snd (kv p) = or_zero (Tot_Srvcs (snd p))"
    and "\<forall>r\<in>set rows. \<forall>v. Tot_Srvcs r = Some v \<longrightarrow> whole v" and "set f \<subseteq> set rows"
  shows "\<forall>r\<in>set (map kv (bridged b f)). whole (snd r)"
proof clarsimp
  fix n r assume "(n, r) \<in> set (bridged b f)"
  then have "r \<in> set rows" using bridged_subset assms(3) by blast
  then have "whole (or_zero (Tot_Srvcs r))"
    using assms(2) by (cases "Tot_Srvcs r") (simp_all add: or_zero_def)
  then show "whole (snd (kv (n, r)))" by (simp add: assms(1))
qed

lemma keyed_sum_le:
  fixes kv :: "int \<times> service_record \<Rightarrow> 'k \<times> real"
  assumes "\<And>p. snd (kv p) = or_zero (Tot_Srvcs (snd p))"
    and "\<forall>r\<in>set rows. \<forall>v. Tot_Srvcs r = Some v \<longrightarrow> whole v" and "set f \<subseteq> set rows"
  shows "exact_sum_for k (map kv (bridged b f)) \<le> weight (bridged b f)"
proof -
  have "\<forall>r\<in>set (map kv (bridged b f)). 0 \<le> snd r"
    using keyed_whole [OF assms] whole_nonneg by blast
  then have "exact_sum_for k (map kv (bridged b f)) \<le> sum_list (map snd (map kv (bridged b f)))"
    by (rule exact_sum_for_le_total)
  also have "\<dots> = weight (bridged b f)" by (simp add: weight_def comp_def assms(1))
  finally show ?thesis .
qed

lemma two_stage_exact:
  fixes kv :: "int \<times> service_record \<Rightarrow> 'k::linorder \<times> real"
  assumes val: "\<And>p. snd (kv p) = or_zero (Tot_Srvcs (snd p))"
    and H: "whole_services b (concat cs)"
  shows "groupby_sum (concat (map (\<lambda>f. groupby_sum (map kv (bridged b f)))
            (filter (\<lambda>f. f \<noteq> []) (map (filter P) cs))))
       = groupby_exact (map kv (bridged b (filter P (concat cs))))"
proof -
  let ?fs = "filter (\<lambda>f. f \<noteq> []) (map (filter P) cs)"
  let ?K = "\<lambda>f. map kv (bridged b f)"
  from H have W: "\<forall>r\<in>set (concat cs). \<forall>v. Tot_Srvcs r = Some v \<longrightarrow> whole v"
    and B: "weight (bridged b (concat cs)) \<le> 2 ^ 53"
    by (simp_all add: whole_services_def weight_def)
  have sub: "set f \<subseteq> set (concat cs)" if "f \<in> set ?fs" for f using that by auto
  have bound: "weight (bridged b f) \<le> 2 ^ 53" if "f \<in> set ?fs" for f
  proof -
    from that obtain c where c: "c \<in> set cs" and f: "f = filter P c" by auto
    have "set c \<subseteq> set (concat cs)" using c by auto
    then have "weight (bridged b f) \<le> weight (bridged b c)"
      unfolding f by (rule weight_filter_le [OF W])
    also have "\<dots> \<le> weight (bridged b (concat cs))" using W c by (rule weight_chunk_le)
    finally show ?thesis using B by linarith
  qed
  have stage1: "groupby_sum (?K f) = groupby_exact (?K f)" if "f \<in> set ?fs" for f
  proof (rule groupby_sum_exact)
    show "\<forall>r\<in>set (?K f). whole (snd r)" using val W sub [OF that] by (rule keyed_whole)
    show "exact_sum_for k (?K f) \<le> 2 ^ 53" for k
      using keyed_sum_le [OF val W sub [OF that], of k b] bound [OF that] by linarith
  qed
  then have m: "map (\<lambda>f. groupby_sum (?K f)) ?fs = map (\<lambda>f. groupby_exact (?K f)) ?fs"
    by simp
  let ?rows2 = "concat (map (\<lambda>f. groupby_exact (?K f)) ?fs)"
  have cc: "concat (map ?K ?fs) = ?K (filter P (concat cs))"
  proof -
    have "concat (map ?K ?fs) = map kv (concat (map (bridged b) ?fs))"
      by (simp add: map_concat comp_def)
    also have "\<dots> = map kv (bridged b (concat ?fs))" by (simp only: bridged_concat)
    also have "concat ?fs = filter P (concat cs)" by (rule filter_concat_chunks)
    finally show ?thesis .
  qed
  have w2: "\<forall>r\<in>set ?rows2. whole (snd r)"
  proof -
    have "\<forall>r\<in>set (groupby_exact (?K f)). whole (snd r)" if "f \<in> set ?fs" for f
      using keyed_whole [OF val W sub [OF that]] by (rule groupby_exact_whole)
    then show ?thesis by auto
  qed
  have fsub: "set (filter P (concat cs)) \<subseteq> set (concat cs)" by (rule filter_is_subset)
  have s2: "exact_sum_for k ?rows2 \<le> 2 ^ 53" for k
  proof -
    have "exact_sum_for k ?rows2 = exact_sum_for k (concat (map ?K ?fs))"
      by (simp add: exact_sum_for_concat comp_def)
    also have "\<dots> = exact_sum_for k (?K (filter P (concat cs)))" by (simp only: cc)
    also have "\<dots> \<le> weight (bridged b (filter P (concat cs)))"
      using val W fsub by (rule keyed_sum_le)
    also have "\<dots> \<le> weight (bridged b (concat cs))"
      by (rule weight_filter_le [OF W]) simp
    finally show ?thesis using B by linarith
  qed
  have "groupby_sum ?rows2 = groupby_exact ?rows2" using w2 s2 by (rule groupby_sum_exact)
  also have "\<dots> = groupby_exact (concat (map ?K ?fs))"
    using groupby_exact_concat_groupby [of "map ?K ?fs"] by (simp add: comp_def)
  also have "\<dots> = groupby_exact (?K (filter P (concat cs)))" by (simp only: cc)
  finally show ?thesis by (simp only: m)
qed

lemma process_chunked_whole:
  assumes H: "whole_services b (concat cs)"
  shows "process_chunked b cs =
     (if filter (\<lambda>r. HCPCS_Cd r \<in> ALL_TARGET_CODES) (concat cs) = [] then None
      else Some
        (map (metrics_row
                (groupby_exact (map (\<lambda>(n, r). ((n, HCPCS_Cd r), or_zero (Tot_Srvcs r)))
                   (bridged b (filter (\<lambda>r. HCPCS_Cd r \<in> ALL_TARGET_CODES) (concat cs)))))
                (if filter (\<lambda>r. is_procedure_code (HCPCS_Cd r)) (concat cs) \<noteq> []
                 then Some (groupby_exact (map (\<lambda>(n, r). (n, or_zero (Tot_Srvcs r)))
                        (bridged b (filter (\<lambda>r. is_procedure_code (HCPCS_Cd r)) (concat cs)))))
                 else None))
           (filter (\<lambda>n. 10 \<le> total_eval_of
                (groupby_exact (map (\<lambda>(n, r). ((n, HCPCS_Cd r), or_zero (Tot_Srvcs r)))
                   (bridged b (filter (\<lambda>r. HCPCS_Cd r \<in> ALL_TARGET_CODES) (concat cs))))) n)
              (pivot_index
                (groupby_exact (map (\<lambda>(n, r). ((n, HCPCS_Cd r), or_zero (Tot_Srvcs r)))
                   (bridged b (filter (\<lambda>r. HCPCS_Cd r \<in> ALL_TARGET_CODES) (concat cs)))))))))"
proof -
  let ?T = "\<lambda>r. HCPCS_Cd r \<in> ALL_TARGET_CODES"
  let ?PR = "\<lambda>r. is_procedure_code (HCPCS_Cd r)"
  let ?kvE = "\<lambda>(n, r). ((n, HCPCS_Cd r), or_zero (Tot_Srvcs r))"
  let ?kvP = "\<lambda>(n, r). (n, or_zero (Tot_Srvcs r))"
  let ?fT = "filter (\<lambda>f. f \<noteq> []) (map (filter ?T) cs)"
  let ?fP = "filter (\<lambda>f. f \<noteq> []) (map (filter ?PR) cs)"
  have vE: "snd (?kvE p) = or_zero (Tot_Srvcs (snd p))" for p :: "int \<times> service_record"
    by (cases p) simp
  have vP: "snd (?kvP p) = or_zero (Tot_Srvcs (snd p))" for p :: "int \<times> service_record"
    by (cases p) simp
  have E: "groupby_sum (concat (map (eval_agg b) ?fT))
      = groupby_exact (map ?kvE (bridged b (filter ?T (concat cs))))"
  proof -
    have "eval_agg b = (\<lambda>f. groupby_sum (map ?kvE (bridged b f)))"
      by (rule ext) (simp only: eval_agg_def)
    then show ?thesis using two_stage_exact [of ?kvE b cs ?T, OF vE H] by (simp only:)
  qed
  have P: "groupby_sum (concat (map (proc_agg b) ?fP))
      = groupby_exact (map ?kvP (bridged b (filter ?PR (concat cs))))"
  proof -
    have "proc_agg b = (\<lambda>f. groupby_sum (map ?kvP (bridged b f)))"
      by (rule ext) (simp only: proc_agg_def)
    then show ?thesis using two_stage_exact [of ?kvP b cs ?PR, OF vP H] by (simp only:)
  qed
  have nT: "map (eval_agg b) ?fT = [] \<longleftrightarrow> filter ?T (concat cs) = []"
    by (simp only: map_is_Nil_conv filter_nonempty_Nil filter_concat [symmetric])
  have nP: "map (proc_agg b) ?fP = [] \<longleftrightarrow> filter ?PR (concat cs) = []"
    by (simp only: map_is_Nil_conv filter_nonempty_Nil filter_concat [symmetric])
  have "process_chunked b cs =
      (if map (eval_agg b) ?fT = [] then None
       else Some (finalize (map (eval_agg b) ?fT) (map (proc_agg b) ?fP)))"
    by (simp add: process_chunked_def process_chunks_eq)
  also have "\<dots> = (if filter ?T (concat cs) = [] then None
       else Some
        (map (metrics_row (groupby_sum (concat (map (eval_agg b) ?fT)))
                (if filter ?PR (concat cs) \<noteq> []
                 then Some (groupby_sum (concat (map (proc_agg b) ?fP))) else None))
           (filter (\<lambda>n. 10 \<le> total_eval_of (groupby_sum (concat (map (eval_agg b) ?fT))) n)
              (pivot_index (groupby_sum (concat (map (eval_agg b) ?fT)))))))"
    unfolding finalize_def Let_def by (simp only: nT nP)
  finally show ?thesis by (simp only: E P)
qed

lemma process_chunked_concat:
  assumes "whole_services b (concat cs1)" and "concat cs1 = concat cs2"
  shows "process_chunked b cs1 = process_chunked b cs2"
proof -
  from assms have "whole_services b (concat cs2)" by simp
  then show ?thesis
    by (simp only: process_chunked_whole [OF assms(1)] process_chunked_whole [OF \<open>whole_services b (concat cs2)\<close>] assms(2))
qed

lemma process_utilization_whole:
  assumes "whole_services b rows" and "0 < n"
  shows "process_utilization_with_bridge n b rows = Inr (process_chunked b [rows])"
proof -
  have c: "concat (chunks_of n rows) = concat [rows]" using assms(2) by (simp add: concat_chunks_of)
  then have "whole_services b (concat (chunks_of n rows))" using assms(1) by simp
  then have "process_chunked b (chunks_of n rows) = process_chunked b [rows]"
    using c by (rule process_chunked_concat)
  then show ?thesis using assms(2)
    by (simp add: process_utilization_with_bridge_def read_csv_chunks_def)
qed

section \<open>Evaluation of the reader\<close>

lemma chunks_of_Nil: "chunks_of n [] = []"
  by (subst chunks_of.simps) simp

lemma chunks_of_step:
  "0 < n \<Longrightarrow> xs \<noteq> [] \<Longrightarrow> chunks_of n xs = take n xs # chunks_of n (drop n xs)"
  by (subst chunks_of.simps) simp

lemma chunks_of_short:
  assumes "0 < n" and "xs \<noteq> []" and "length xs \<le> n"
  shows "chunks_of n xs = [xs]"
proof -
  have "chunks_of n xs = take n xs # chunks_of n (drop n xs)" using assms(1,2) by (rule chunks_of_step)
  then show ?thesis using assms(3) by (simp add: chunks_of_Nil)
qed

lemma not_procedure_99213: "\<not> is_procedure_code ''99213''"
  by (simp add: is_procedure_code_def py_int_def strip_def is_space_def py_int_digits_def
      digit_val_def)

lemma not_procedure_99215: "\<not> is_procedure_code ''99215''"
  by (simp add: is_procedure_code_def py_int_def strip_def is_space_def py_int_digits_def
      digit_val_def)


lemma target_codes:
  "''99213'' \<in> ALL_TARGET_CODES" "''99215'' \<in> ALL_TARGET_CODES" "''G0008'' \<notin> ALL_TARGET_CODES"
  by (simp_all add: ALL_TARGET_CODES_def LEVEL_3_CODES_def LEVEL_4_5_CODES_def)

section \<open>Fractional service counts\<close>


lemma whole_sums:
  "fadd 0 0 = 0" "fadd 0 10 = 10" "fadd 10 0 = 10" "fdiv 0 10 = 0"
  by (simp_all add: fadd_def fdiv_def fl_numeral)















section \<open>A negative service count\<close>

lemma negative_sums:
  "fadd 0 (- 5) = - 5" "fadd 0 20 = 20" "fadd (- 5) 20 = 15"
  "fdiv 20 15 = 6004799503160661 / 4503599627370496"
     apply (simp add: fadd_def fl_neg_numeral)
    apply (simp add: fadd_def fl_numeral)
   apply (simp add: fadd_def fl_numeral)
  apply (simp add: fdiv_def fl_eval [where k = 52] round_half_even_def)
  done

lemma negative_eval_agg:
  "eval_agg None (filter (\<lambda>r. HCPCS_Cd r \<in> ALL_TARGET_CODES) negative_rows)
     = [((1, ''99213''), - 5), ((1, ''99215''), 20)]"
  by (simp add: negative_rows_def target_codes eval_agg_def bridged_def groupby_sum_def
      sum_for_def fsum_def or_zero_def negative_sums)

lemma negative_finalize:
  "finalize [[((1, ''99213''), - 5), ((1, ''99215''), 20)]] []
     = [\<lparr> agg_npi = 1, agg_undercoding_ratio = 6004799503160661 / 4503599627370496,
          agg_total_eval_codes = 15, agg_count_level_3 = - 5, agg_count_level_4_5 = 20,
          agg_total_procedure_codes = 0, agg_procedure_ratio = Some 0 \<rparr>]"
  by (simp add: finalize_def Let_def groupby_sum_def sum_for_def fsum_def
      pivot_index_def total_eval_of_def count_level_3_def count_level_4_5_def pivot_cell_def
      LEVEL_3_CODES_def LEVEL_4_5_CODES_def whole_sums negative_sums metrics_row_def)

lemma negative_chunked:
  "process_chunked None [negative_rows]
     = Some [\<lparr> agg_npi = 1, agg_undercoding_ratio = 6004799503160661 / 4503599627370496,
               agg_total_eval_codes = 15, agg_count_level_3 = - 5, agg_count_level_4_5 = 20,
               agg_total_procedure_codes = 0, agg_procedure_ratio = Some 0 \<rparr>]"
proof -
  have ne: "filter (\<lambda>r. HCPCS_Cd r \<in> ALL_TARGET_CODES) negative_rows \<noteq> []"
    by (simp add: negative_rows_def target_codes)
  have np: "filter (\<lambda>r. is_procedure_code (HCPCS_Cd r)) negative_rows = []"
    by (simp add: negative_rows_def not_procedure_99213 not_procedure_99215)
  show ?thesis
    by (simp add: process_chunked_def Let_def ne np negative_eval_agg negative_finalize)
qed

lemma negative_chunks: "chunks_of 100000 negative_rows = [negative_rows]"
  by (rule chunks_of_short) (simp_all add: negative_rows_def)

section \<open>The example file\<close>

lemma ex_filtered:
  "filter (\<lambda>r. HCPCS_Cd r \<in> ALL_TARGET_CODES) example_rows =
     [\<lparr> Rndrng_NPI = 1, HCPCS_Cd = ''99213'', Tot_Srvcs = Some 6 \<rparr>,
      \<lparr> Rndrng_NPI = 2, HCPCS_Cd = ''99214'', Tot_Srvcs = Some 4 \<rparr>,
      \<lparr> Rndrng_NPI = 3, HCPCS_Cd = ''99213'', Tot_Srvcs = Some 3 \<rparr>,
      \<lparr> Rndrng_NPI = 2, HCPCS_Cd = ''99215'', Tot_Srvcs = Some 2 \<rparr>]"
  by (simp add: example_rows_def ALL_TARGET_CODES_def LEVEL_3_CODES_def LEVEL_4_5_CODES_def)

lemma ex_proc:
  "filter (\<lambda>r. is_procedure_code (HCPCS_Cd r)) example_rows =
     [\<lparr> Rndrng_NPI = 1, HCPCS_Cd = ''11042'', Tot_Srvcs = Some 5 \<rparr>]"
  by (simp add: example_rows_def is_procedure_code_def py_int_def strip_def is_space_def
      py_int_digits_def digit_val_def)

lemma ex_whole: "whole_services (Some example_bridge) example_rows"
  by (simp add: whole_services_def whole_def example_rows_def bridged_def merge_bridge_def
      example_bridge_def or_zero_def)

lemma ex_nonneg: "nonneg_services example_rows"
  by (simp add: nonneg_services_def example_rows_def)

lemma ex_eval_exact:
  "groupby_exact (map (\<lambda>(n, r). ((n, HCPCS_Cd r), or_zero (Tot_Srvcs r)))
     (bridged (Some example_bridge)
        [\<lparr> Rndrng_NPI = 1, HCPCS_Cd = ''99213'', Tot_Srvcs = Some 6 \<rparr>,
         \<lparr> Rndrng_NPI = 2, HCPCS_Cd = ''99214'', Tot_Srvcs = Some 4 \<rparr>,
         \<lparr> Rndrng_NPI = 3, HCPCS_Cd = ''99213'', Tot_Srvcs = Some 3 \<rparr>,
         \<lparr> Rndrng_NPI = 2, HCPCS_Cd = ''99215'', Tot_Srvcs = Some 2 \<rparr>]))
   = [((10, ''99213''), 6), ((10, ''99214''), 4), ((10, ''99215''), 2), ((30, ''99213''), 3)]"
  by (simp add: bridged_def merge_bridge_def example_bridge_def or_zero_def
      groupby_exact_def exact_sum_for_def)

lemma ex_proc_exact:
  "groupby_exact (map (\<lambda>(n, r). (n, or_zero (Tot_Srvcs r)))
     (bridged (Some example_bridge)
        [\<lparr> Rndrng_NPI = 1, HCPCS_Cd = ''11042'', Tot_Srvcs = Some 5 \<rparr>]))
   = [(10, 5)]"
  by (simp add: bridged_def merge_bridge_def example_bridge_def or_zero_def
      groupby_exact_def exact_sum_for_def)

lemma ex_sums:
  "fadd 0 6 = 6" "fadd 0 4 = 4" "fadd 4 2 = 6" "fadd 6 6 = 12" "fadd 0 3 = 3" "fadd 3 0 = 3"
  "fadd 5 12 = 17" "fdiv 6 12 = 1 / 2"
  by (simp_all add: fadd_def fdiv_def fl_numeral fl_eval [where k = 53] round_half_even_def)

lemma ex_counts:
  "count_level_3 [((10, ''99213''), 6), ((10, ''99214''), 4), ((10, ''99215''), 2), ((30, ''99213''), 3)] 10 = 6"
  "count_level_4_5 [((10, ''99213''), 6), ((10, ''99214''), 4), ((10, ''99215''), 2), ((30, ''99213''), 3)] 10 = 6"
  "count_level_3 [((10, ''99213''), 6), ((10, ''99214''), 4), ((10, ''99215''), 2), ((30, ''99213''), 3)] 30 = 3"
  "count_level_4_5 [((10, ''99213''), 6), ((10, ''99214''), 4), ((10, ''99215''), 2), ((30, ''99213''), 3)] 30 = 0"
  by (simp_all add: count_level_3_def count_level_4_5_def pivot_cell_def LEVEL_3_CODES_def
      LEVEL_4_5_CODES_def fsum_def whole_sums ex_sums)

lemma ex_index:
  "pivot_index [((10, ''99213''), 6), ((10, ''99214''), 4), ((10, ''99215''), 2), ((30, ''99213''), 3)]
     = [10, 30]"
  by (simp add: pivot_index_def)

lemma example_single:
  "process_chunked (Some example_bridge) [example_rows]
     = Some [\<lparr> agg_npi = 10, agg_undercoding_ratio = 1 / 2, agg_total_eval_codes = 12,
               agg_count_level_3 = 6, agg_count_level_4_5 = 6, agg_total_procedure_codes = 5,
               agg_procedure_ratio = Some (fdiv 5 17) \<rparr>]"
proof -
  have "whole_services (Some example_bridge) (concat [example_rows])" using ex_whole by simp
  from process_chunked_whole [OF this] show ?thesis
    by (simp add: ex_filtered ex_proc ex_eval_exact ex_proc_exact ex_index ex_counts
        total_eval_of_def ex_sums metrics_row_def Let_def)
qed

section \<open>Claims about the aggregator\<close>

text \<open>
  Claim C4, as amended. Every row that the aggregator emits has at least 10 evaluation
  codes, its two level counts add up to that total, and its undercoding ratio is the
  level 4/5 count divided by the total, the sum and the quotient being those of double
  arithmetic. Provided no service count of the input is negative, the undercoding ratio
  lies in [0, 1], and the procedure ratio is the procedure volume divided by the
  procedure volume plus the evaluation total, lies in [0, 1] and is 0 when there is no
  procedure volume.
\<close>

theorem aggregator_row_invariants:
  assumes "process_utilization_with_bridge chunk_size bridge rows = Inr (Some out)"
    and "m \<in> set out"
  shows "10 \<le> agg_total_eval_codes m
     \<and> fadd (agg_count_level_3 m) (agg_count_level_4_5 m) = agg_total_eval_codes m
     \<and> agg_undercoding_ratio m = fdiv (agg_count_level_4_5 m) (agg_total_eval_codes m)
     \<and> (nonneg_services rows \<longrightarrow>
          0 \<le> agg_undercoding_ratio m \<and> agg_undercoding_ratio m \<le> 1
          \<and> agg_procedure_ratio m
              = Some (fdiv (agg_total_procedure_codes m)
                           (fadd (agg_total_procedure_codes m) (agg_total_eval_codes m)))
          \<and> 0 \<le> fdiv (agg_total_procedure_codes m)
                      (fadd (agg_total_procedure_codes m) (agg_total_eval_codes m))
          \<and> fdiv (agg_total_procedure_codes m)
                  (fadd (agg_total_procedure_codes m) (agg_total_eval_codes m)) \<le> 1
          \<and> (agg_total_procedure_codes m = 0 \<longrightarrow> agg_procedure_ratio m = Some 0))"
proof -
  from assms(1) have k: "0 < chunk_size"
    by (auto simp: process_utilization_with_bridge_def read_csv_chunks_def split: if_splits)
  with assms(1) have pc: "process_chunked bridge (chunks_of chunk_size rows) = Some out"
    by (simp add: process_utilization_with_bridge_def read_csv_chunks_def)
  have cc: "concat (chunks_of chunk_size rows) = rows" using k by (rule concat_chunks_of)
  have z: "fdiv 0 x = 0" for x by (simp add: fdiv_def)
  from process_chunked_invariants [OF pc assms(2)] show ?thesis
    unfolding cc using z by auto
qed

text \<open>
  The bounds fail when a service count is negative: a provider with \<open>- 5\<close>
  services of 99213 and 20 of 99215 is emitted with 15 evaluation codes and an
  undercoding ratio of 20 / 15, rounded to a double, which is above 1.
\<close>

theorem aggregator_row_invariants_counterexample:
  "process_utilization_with_bridge 100000 None negative_rows
     = Inr (Some [\<lparr> agg_npi = 1, agg_undercoding_ratio = 6004799503160661 / 4503599627370496,
                     agg_total_eval_codes = 15, agg_count_level_3 = - 5,
                     agg_count_level_4_5 = 20, agg_total_procedure_codes = 0,
                     agg_procedure_ratio = Some 0 \<rparr>])
   \<and> \<not> agg_undercoding_ratio
          \<lparr> agg_npi = 1, agg_undercoding_ratio = 6004799503160661 / 4503599627370496,
            agg_total_eval_codes = 15, agg_count_level_3 = - 5, agg_count_level_4_5 = 20,
            agg_total_procedure_codes = 0, agg_procedure_ratio = Some 0 \<rparr> \<le> 1"
  by (simp add: process_utilization_with_bridge_def read_csv_chunks_def negative_chunks
      negative_chunked)

theorem aggregator_row_invariants_witness:
  "process_utilization_with_bridge 2 (Some example_bridge) example_rows
     = Inr (Some [\<lparr> agg_npi = 10, agg_undercoding_ratio = 1 / 2, agg_total_eval_codes = 12,
                     agg_count_level_3 = 6, agg_count_level_4_5 = 6,
                     agg_total_procedure_codes = 5, agg_procedure_ratio = Some (fdiv 5 17) \<rparr>])
   \<and> nonneg_services example_rows
   \<and> (10::real) \<le> 12 \<and> fadd 6 6 = 12 \<and> 1 / 2 = fdiv 6 12
   \<and> (0::real) \<le> 1 / 2 \<and> (1 / 2 :: real) \<le> 1
   \<and> Some (fdiv 5 17) = Some (fdiv 5 (fadd 5 12))
   \<and> 0 \<le> fdiv 5 (fadd 5 12) \<and> fdiv 5 (fadd 5 12) \<le> 1"
proof -
  let ?m = "\<lparr> agg_npi = 10, agg_undercoding_ratio = 1 / 2, agg_total_eval_codes = 12,
              agg_count_level_3 = 6, agg_count_level_4_5 = 6,
              agg_total_procedure_codes = 5, agg_procedure_ratio = Some (fdiv 5 17) \<rparr>"
  have run: "process_utilization_with_bridge 2 (Some example_bridge) example_rows
               = Inr (Some [?m])"
    by (simp add: process_utilization_whole [OF ex_whole] example_single)
  have "?m \<in> set [?m]" by simp
  from aggregator_row_invariants [OF run this] ex_nonneg run show ?thesis by simp
qed




end
